theory Spec2Isabelle
  imports Complex_Main "HOL-Library.Multiset"
begin

section \<open>Pomodoro session controller (src/src/pages/Pomodoro.tsx)\<close>

text \<open>
  The component keeps four pieces of React state (\<open>duration\<close>, \<open>timeLeft\<close>, \<open>isRunning\<close>,
  \<open>sessionId\<close>) and one interval handle. The persistence collaborator is the table
  \<open>pomodoro_sessions\<close> of the migration; every request the component sends is recorded in
  \<open>requests\<close>, every toast in \<open>toasts\<close>. The outcome of a request is not decided by the
  component, so each handler takes the collaborator's answers as an argument.
  Handlers are run one after the other, each to its end (the awaits included) before
  the next event: the model is the sequential behaviour of the component.
  The list shown under "Today's Sessions" is display state only and is left out; the
  read that fills it is recorded in \<open>requests\<close>.
\<close>

record session_row =
  ps_id :: string
  ps_user_id :: string
  ps_duration :: int
  ps_completed :: bool
  ps_task_id :: "string option"
  ps_started_at :: int
  ps_completed_at :: "int option"

datatype request =
    GetUser
  | InsertSession string int bool
  | UpdateSession string
  | SelectSessions string

record toast =
  destructive :: bool
  toast_title :: string
  toast_description :: string

text \<open>
  What the collaborator answers during one handler: the authenticated user, the outcome
  of the insert (\<open>Inl\<close> the error message, \<open>Inr\<close> the id the server assigned), the outcome
  of the update (\<open>Some\<close> the error message), and the two clocks.
\<close>

record collab =
  auth_user :: "string option"
  insert_result :: "string + string"
  update_error :: "string option"
  client_now :: int
  server_now :: int

record pomodoro =
  duration :: int
  timeLeft :: int
  isRunning :: bool
  sessionId :: "string option"
  interval_live :: bool
  pomodoro_sessions :: "session_row list"
  requests :: "request list"
  toasts :: "toast list"
  completeSession_calls :: nat

text \<open>\<open>!sessionId\<close> on a \<open>string | null\<close>: null and the empty string are falsy.\<close>

definition truthy :: "string option \<Rightarrow> bool" where
  "truthy s = (case s of None \<Rightarrow> False | Some v \<Rightarrow> v \<noteq> [])"

definition initial :: pomodoro where
  "initial = \<lparr>duration = 25 * 60, timeLeft = 25 * 60, isRunning = False,
     sessionId = None, interval_live = False, pomodoro_sessions = [],
     requests = [], toasts = [], completeSession_calls = 0\<rparr>"

definition resetTimer :: "pomodoro \<Rightarrow> pomodoro" where
  "resetTimer w =
     w\<lparr>isRunning := False, timeLeft := duration w, sessionId := None,
       interval_live := False\<rparr>"

definition loadSessions :: "collab \<Rightarrow> pomodoro \<Rightarrow> pomodoro" where
  "loadSessions c w =
     (case auth_user c of
        None \<Rightarrow> w\<lparr>requests := requests w @ [GetUser]\<rparr>
      | Some u \<Rightarrow> w\<lparr>requests := requests w @ [GetUser, SelectSessions u]\<rparr>)"

text \<open>
  The update \<open>.update({completed: true, completed_at: now}).eq("id", sessionId)\<close> under
  the policy "Users can update own sessions" (\<open>auth.uid() = user_id\<close>).
\<close>

definition update_completed :: "collab \<Rightarrow> string \<Rightarrow> session_row list \<Rightarrow> session_row list" where
  "update_completed c sid rows =
     map (\<lambda>r. if ps_id r = sid \<and> auth_user c = Some (ps_user_id r)
               then r\<lparr>ps_completed := True, ps_completed_at := Some (client_now c)\<rparr>
               else r) rows"

definition completeSession :: "collab \<Rightarrow> pomodoro \<Rightarrow> pomodoro" where
  "completeSession c w0 =
     (let w = w0\<lparr>completeSession_calls := Suc (completeSession_calls w0)\<rparr> in
      case sessionId w of
        None \<Rightarrow> w
      | Some sid \<Rightarrow>
          if sid = [] then w
          else
            (let w1 = w\<lparr>requests := requests w @ [UpdateSession sid]\<rparr> in
             case update_error c of
               Some msg \<Rightarrow>
                 w1\<lparr>toasts := toasts w1 @
                   [\<lparr>destructive = True, toast_title = ''Error completing session'',
                     toast_description = msg\<rparr>]\<rparr>
             | None \<Rightarrow>
                 loadSessions c (resetTimer
                   (w1\<lparr>pomodoro_sessions := update_completed c sid (pomodoro_sessions w1),
                       toasts := toasts w1 @
                         [\<lparr>destructive = False, toast_title = ''Session completed!'',
                           toast_description = ''Great work! Take a 5-minute break.''\<rparr>]\<rparr>))))"

text \<open>
  The body of the effect with dependencies \<open>[isRunning, timeLeft]\<close>. Its cleanup clears
  the interval, so the interval is live only when the body has just set it.
\<close>

definition timer_effect :: "collab \<Rightarrow> pomodoro \<Rightarrow> pomodoro" where
  "timer_effect c w =
     (if isRunning w \<and> timeLeft w > 0 then w\<lparr>interval_live := True\<rparr>
      else if timeLeft w = 0 \<and> isRunning w then completeSession c w
      else w)"

definition cleanup :: "pomodoro \<Rightarrow> pomodoro" where
  "cleanup w = w\<lparr>interval_live := False\<rparr>"

definition deps :: "pomodoro \<Rightarrow> bool \<times> int" where
  "deps w = (isRunning w, timeLeft w)"

text \<open>
  React runs the cleanup and the effect again after a render in which a dependency
  changed, and once more if the effect itself changed one. \<open>old\<close> is the state of the
  render before.
\<close>

function rerender :: "collab \<Rightarrow> pomodoro \<Rightarrow> pomodoro \<Rightarrow> pomodoro" where
  "rerender c old w =
     (if deps w = deps old then w
      else rerender c w (timer_effect c (cleanup w)))"
  by pat_completeness auto

termination
proof (relation "measure (\<lambda>(c, old, w).
    if deps w = deps old then 0 else if isRunning w then 2 else (1::nat))")
  show "wf (measure (\<lambda>(c, old, w).
    if deps w = deps old then 0 else if isRunning w then 2 else (1::nat)))"
    by simp
next
  fix c :: collab and old w :: pomodoro
  assume "deps w \<noteq> deps old"
  then show "((c, w, timer_effect c (cleanup w)), (c, old, w)) \<in> measure (\<lambda>(c, old, w).
    if deps w = deps old then 0 else if isRunning w then 2 else (1::nat))"
    by (auto simp: deps_def timer_effect_def cleanup_def completeSession_def resetTimer_def
        loadSessions_def Let_def split: option.splits if_splits)
qed

declare rerender.simps [simp del]

text \<open>
  \<open>toggleTimer\<close>: the handler of the button and of the Space key. The row it inserts
  gets its id and \<open>started_at\<close> from the server; \<open>task_id\<close> and \<open>completed_at\<close> are not sent.
\<close>

definition toggleTimer :: "collab \<Rightarrow> pomodoro \<Rightarrow> pomodoro" where
  "toggleTimer c w =
     (if \<not> isRunning w \<and> \<not> truthy (sessionId w) then
        (let w1 = w\<lparr>requests := requests w @ [GetUser]\<rparr> in
         case auth_user c of
           None \<Rightarrow> w1
         | Some u \<Rightarrow>
             (let w2 = w1\<lparr>requests := requests w1 @
                        [InsertSession u (duration w div 60) False]\<rparr> in
              case insert_result c of
                Inl msg \<Rightarrow>
                  w2\<lparr>toasts := toasts w2 @
                    [\<lparr>destructive = True, toast_title = ''Error starting session'',
                      toast_description = msg\<rparr>]\<rparr>
              | Inr new_id \<Rightarrow>
                  w2\<lparr>pomodoro_sessions := pomodoro_sessions w2 @
                        [\<lparr>ps_id = new_id, ps_user_id = u, ps_duration = duration w div 60,
                          ps_completed = False, ps_task_id = None,
                          ps_started_at = server_now c, ps_completed_at = None\<rparr>],
                      sessionId := Some new_id,
                      isRunning := \<not> isRunning w\<rparr>))
      else w\<lparr>isRunning := \<not> isRunning w\<rparr>)"

text \<open>The interval callback \<open>setTimeLeft(prev => prev - 1)\<close>; it fires only while the interval is live.\<close>

definition decrement :: "pomodoro \<Rightarrow> pomodoro" where
  "decrement w = w\<lparr>timeLeft := timeLeft w - 1\<rparr>"

text \<open>The events of the component: a handler, then the renders and effects it causes.\<close>

definition toggle :: "collab \<Rightarrow> pomodoro \<Rightarrow> pomodoro" where
  "toggle c w = rerender c w (toggleTimer c w)"

definition reset :: "collab \<Rightarrow> pomodoro \<Rightarrow> pomodoro" where
  "reset c w = rerender c w (resetTimer w)"

definition tick :: "collab \<Rightarrow> pomodoro \<Rightarrow> pomodoro" where
  "tick c w = (if interval_live w then rerender c w (decrement w) else w)"

datatype event = Toggle collab | Reset collab | Tick collab

fun step :: "pomodoro \<Rightarrow> event \<Rightarrow> pomodoro" where
  "step w (Toggle c) = toggle c w"
| "step w (Reset c) = reset c w"
| "step w (Tick c) = tick c w"

definition run :: "pomodoro \<Rightarrow> event list \<Rightarrow> pomodoro" where
  "run w es = foldl step w es"

text \<open>The writes among the requests, and the controller states of the specification.\<close>

fun is_write :: "request \<Rightarrow> bool" where
  "is_write (InsertSession u d b) = True"
| "is_write (UpdateSession s) = True"
| "is_write GetUser = False"
| "is_write (SelectSessions u) = False"

definition writes :: "pomodoro \<Rightarrow> request list" where
  "writes w = filter is_write (requests w)"

definition Idle :: "pomodoro \<Rightarrow> bool" where
  "Idle w = (\<not> isRunning w \<and> \<not> truthy (sessionId w))"

definition Running :: "pomodoro \<Rightarrow> bool" where
  "Running w = (isRunning w \<and> truthy (sessionId w))"

fun is_insert :: "request \<Rightarrow> bool" where
  "is_insert (InsertSession u d b) = True"
| "is_insert (UpdateSession s) = False"
| "is_insert GetUser = False"
| "is_insert (SelectSessions u) = False"

definition inserts :: "pomodoro \<Rightarrow> request list" where
  "inserts w = filter is_insert (requests w)"

text \<open>Concrete collaborators and states, used to run the model.\<close>

definition collab_ok :: collab where
  "collab_ok = \<lparr>auth_user = Some ''u1'', insert_result = Inr ''s1'', update_error = None,
     client_now = 1704067200000, server_now = 1704067200000\<rparr>"

definition collab_insert_fails :: collab where
  "collab_insert_fails = collab_ok\<lparr>insert_result := Inl ''permission denied''\<rparr>"

definition collab_update_fails :: collab where
  "collab_update_fails = collab_ok\<lparr>update_error := Some ''timeout''\<rparr>"

definition open_row :: session_row where
  "open_row = \<lparr>ps_id = ''s1'', ps_user_id = ''u1'', ps_duration = 25, ps_completed = False,
     ps_task_id = None, ps_started_at = 1704067200000, ps_completed_at = None\<rparr>"

definition running_at :: "int \<Rightarrow> pomodoro" where
  "running_at t = \<lparr>duration = 25 * 60, timeLeft = t, isRunning = True,
     sessionId = Some ''s1'', interval_live = True, pomodoro_sessions = [open_row],
     requests = [GetUser, InsertSession ''u1'' 25 False], toasts = [],
     completeSession_calls = 0\<rparr>"

section \<open>Notifications of the header (component Header, src/unnamed/part_000)\<close>

text \<open>
  The rows of the tables \<open>exams\<close> and \<open>tasks\<close>, with the columns the components read.
  Timestamps are milliseconds since the epoch, the precision of the JavaScript \<open>Date\<close>
  that writes and compares them.
\<close>

record exam_row =
  exam_id :: string
  exam_user_id :: string
  exam_course :: string
  exam_title :: string
  exam_date :: int

record task_row =
  task_id :: string
  task_user_id :: string
  task_title :: string
  task_course :: "string option"
  task_due_date :: "int option"
  task_priority :: string
  task_completed :: bool

record database =
  exams :: "exam_row list"
  tasks :: "task_row list"

record notification =
  n_id :: string
  n_title :: string
  n_message :: string
  n_time :: string
  n_read :: bool

record header =
  notifications :: "notification list"
  unreadCount :: int

text \<open>
  What one pass of \<open>loadNotifications\<close> takes from outside: the authenticated user, the
  clock (\<open>clock k\<close> is the k-th reading of \<open>new Date()\<close> or \<open>Date.now()\<close> in the pass, in
  the order the code makes them), the locale's date format, the local calendar's
  \<open>setDate(getDate() + 7)\<close>, which of the three reads fail (\<open>data\<close> is null then), and,
  for each read, the arrangement in which the server returns the rows that the query
  does not order: \<open>rank i\<close> is the place of the row with id \<open>i\<close> in it.
\<close>

record runtime =
  h_user :: "string option"
  clock :: "nat \<Rightarrow> int"
  toLocaleDateString :: "int \<Rightarrow> string"
  plus_seven_days :: "int \<Rightarrow> int"
  exams_fail :: bool
  overdue_fail :: bool
  upcoming_fail :: bool
  exams_rank :: "string \<Rightarrow> nat"
  overdue_rank :: "string \<Rightarrow> nat"
  upcoming_rank :: "string \<Rightarrow> nat"

definition header_initial :: header where
  "header_initial = \<lparr>notifications = [], unreadCount = 0\<rparr>"

text \<open>\<open>new Date(v).getTime()\<close> for a timestamp column; \<open>new Date(null)\<close> is the epoch.\<close>

definition new_Date :: "int option \<Rightarrow> int" where
  "new_Date v = (case v of None \<Rightarrow> 0 | Some d \<Rightarrow> d)"

text \<open>
  The rows of a read as the server arranges them, before any \<open>order\<close> of the query.
\<close>

definition server_order :: "('a \<Rightarrow> string) \<Rightarrow> (string \<Rightarrow> nat) \<Rightarrow> 'a list \<Rightarrow> 'a list" where
  "server_order ident rank rows = sort_key (\<lambda>r. rank (ident r)) rows"

text \<open>
  The place of the row with id \<open>i\<close> in an arrangement \<open>xs\<close>: the rank under which
  \<open>server_order\<close> returns \<open>xs\<close>.
\<close>

definition place :: "('a \<Rightarrow> string) \<Rightarrow> 'a list \<Rightarrow> string \<Rightarrow> nat" where
  "place ident xs i = length (takeWhile (\<lambda>x. ident x \<noteq> i) xs)"

text \<open>
  The three reads. A comparison with a null \<open>due_date\<close> selects nothing. \<open>order\<close> sorts
  the server's arrangement and keeps it among rows with equal keys, so that which of
  several rows with the same date come first, and which are cut by \<open>limit(5)\<close>
  (\<open>take 5\<close>), is the server's choice and not the table's. The read of overdue tasks has
  no \<open>order\<close>: its five rows are the first five of the server's arrangement.
\<close>

definition eligible_exam :: "string \<Rightarrow> int \<Rightarrow> exam_row \<Rightarrow> bool" where
  "eligible_exam uid now e = (exam_user_id e = uid \<and> now \<le> exam_date e)"

definition select_exams ::
  "(string \<Rightarrow> nat) \<Rightarrow> string \<Rightarrow> int \<Rightarrow> exam_row list \<Rightarrow> exam_row list" where
  "select_exams rank uid now tbl =
     take 5 (sort_key exam_date (server_order exam_id rank (filter (eligible_exam uid now) tbl)))"

definition select_overdue ::
  "(string \<Rightarrow> nat) \<Rightarrow> string \<Rightarrow> int \<Rightarrow> task_row list \<Rightarrow> task_row list" where
  "select_overdue rank uid now tbl =
     take 5 (server_order task_id rank
       (filter (\<lambda>t. task_user_id t = uid \<and> \<not> task_completed t \<and>
                     (case task_due_date t of None \<Rightarrow> False | Some d \<Rightarrow> d < now)) tbl))"

definition select_upcoming ::
  "(string \<Rightarrow> nat) \<Rightarrow> string \<Rightarrow> int \<Rightarrow> int \<Rightarrow> task_row list \<Rightarrow> task_row list" where
  "select_upcoming rank uid now seven tbl =
     take 5 (sort_key (\<lambda>t. new_Date (task_due_date t))
       (server_order task_id rank
         (filter (\<lambda>t. task_user_id t = uid \<and> \<not> task_completed t \<and>
                       (case task_due_date t of None \<Rightarrow> False
                        | Some d \<Rightarrow> now \<le> d \<and> d \<le> seven)) tbl)))"

text \<open>
  \<open>Math.ceil((target - now) / (1000 * 60 * 60 * 24))\<close>. The difference is a whole number
  of milliseconds; while it is below 2^53 in absolute value, a quotient that is not whole
  is further from every whole number (at least 1 / 86400000) than the rounding of the
  division can move it (less than 2^-27), so the ceiling is the exact one.
\<close>

definition daysUntil :: "int \<Rightarrow> int \<Rightarrow> int" where
  "daysUntil target now = - ((- (target - now)) div (1000 * 60 * 60 * 24))"

text \<open>A whole number inside a template literal.\<close>

fun digits_of :: "nat \<Rightarrow> string" where
  "digits_of n =
     (if n < 10 then [''0123456789'' ! n]
      else digits_of (n div 10) @ [''0123456789'' ! (n mod 10)])"

declare digits_of.simps [simp del]

definition show_int :: "int \<Rightarrow> string" where
  "show_int i = (if i < 0 then CHR ''-'' # digits_of (nat (- i)) else digits_of (nat i))"

definition exam_notif :: "runtime \<Rightarrow> int \<Rightarrow> exam_row \<Rightarrow> notification" where
  "exam_notif rt now e =
     \<lparr>n_id = ''exam-'' @ exam_id e,
      n_title = ''Upcoming Exam: '' @ exam_course e,
      n_message = exam_title e @ '' in '' @ show_int (daysUntil (exam_date e) now) @ '' days'',
      n_time = toLocaleDateString rt (exam_date e),
      n_read = False\<rparr>"

definition overdue_notif :: "runtime \<Rightarrow> task_row \<Rightarrow> notification" where
  "overdue_notif rt t =
     \<lparr>n_id = ''overdue-'' @ task_id t,
      n_title = ''Overdue Task'',
      n_message = task_title t,
      n_time = toLocaleDateString rt (new_Date (task_due_date t)),
      n_read = False\<rparr>"

definition course_or_General :: "string option \<Rightarrow> string" where
  "course_or_General c =
     (case c of None \<Rightarrow> ''General'' | Some v \<Rightarrow> if v = [] then ''General'' else v)"

definition upcoming_notif :: "runtime \<Rightarrow> int \<Rightarrow> task_row \<Rightarrow> notification" where
  "upcoming_notif rt now t =
     \<lparr>n_id = ''upcoming-'' @ task_id t,
      n_title = ''Upcoming Task: '' @ course_or_General (task_course t),
      n_message = task_title t @ '' due in '' @
        show_int (daysUntil (new_Date (task_due_date t)) now) @ '' days'',
      n_time = toLocaleDateString rt (new_Date (task_due_date t)),
      n_read = False\<rparr>"

text \<open>The three \<open>forEach\<close> loops; \<open>k\<close> counts the readings of the clock made so far.\<close>

fun exam_notifs :: "runtime \<Rightarrow> nat \<Rightarrow> exam_row list \<Rightarrow> notification list" where
  "exam_notifs rt k [] = []"
| "exam_notifs rt k (e # es) = exam_notif rt (clock rt k) e # exam_notifs rt (Suc k) es"

fun upcoming_notifs :: "runtime \<Rightarrow> nat \<Rightarrow> task_row list \<Rightarrow> notification list" where
  "upcoming_notifs rt k [] = []"
| "upcoming_notifs rt k (t # ts) =
     upcoming_notif rt (clock rt k) t # upcoming_notifs rt (Suc k) ts"

text \<open>\<open>data?.forEach\<close>: a read that failed contributes nothing.\<close>

definition rows_of :: "'a list option \<Rightarrow> 'a list" where
  "rows_of d = (case d of None \<Rightarrow> [] | Some rows \<Rightarrow> rows)"

definition build_notifs ::
  "runtime \<Rightarrow> exam_row list option \<Rightarrow> task_row list option \<Rightarrow> task_row list option
     \<Rightarrow> notification list" where
  "build_notifs rt ex od up =
     (case ex of None \<Rightarrow> [] | Some es \<Rightarrow> exam_notifs rt 4 es) @
     (case od of None \<Rightarrow> [] | Some ts \<Rightarrow> map (overdue_notif rt) ts) @
     (case up of None \<Rightarrow> [] | Some ts \<Rightarrow> upcoming_notifs rt (4 + length (rows_of ex)) ts)"

definition exams_data :: "runtime \<Rightarrow> database \<Rightarrow> string \<Rightarrow> exam_row list option" where
  "exams_data rt db u =
     (if exams_fail rt then None else Some (select_exams (exams_rank rt) u (clock rt 0) (exams db)))"

definition overdue_data :: "runtime \<Rightarrow> database \<Rightarrow> string \<Rightarrow> task_row list option" where
  "overdue_data rt db u =
     (if overdue_fail rt then None else Some (select_overdue (overdue_rank rt) u (clock rt 1) (tasks db)))"

definition upcoming_data :: "runtime \<Rightarrow> database \<Rightarrow> string \<Rightarrow> task_row list option" where
  "upcoming_data rt db u =
     (if upcoming_fail rt then None
      else Some (select_upcoming (upcoming_rank rt) u (clock rt 3) (plus_seven_days rt (clock rt 2)) (tasks db)))"

definition loadNotifications :: "runtime \<Rightarrow> database \<Rightarrow> header \<Rightarrow> header" where
  "loadNotifications rt db h =
     (case h_user rt of
        None \<Rightarrow> h
      | Some u \<Rightarrow>
          (let notifs = build_notifs rt (exams_data rt db u) (overdue_data rt db u)
                          (upcoming_data rt db u)
           in h\<lparr>notifications := notifs, unreadCount := int (length notifs)\<rparr>))"

definition removeNotification :: "string \<Rightarrow> header \<Rightarrow> header" where
  "removeNotification ident h =
     h\<lparr>notifications := filter (\<lambda>notif. n_id notif \<noteq> ident) (notifications h),
       unreadCount := max 0 (unreadCount h - 1)\<rparr>"

text \<open>The items of a list that carry a given id.\<close>

definition items_with_id :: "string \<Rightarrow> notification list \<Rightarrow> notification list" where
  "items_with_id i ns = filter (\<lambda>n. n_id n = i) ns"

datatype header_op = Load runtime database | Remove string

fun header_step :: "header \<Rightarrow> header_op \<Rightarrow> header" where
  "header_step h (Load rt db) = loadNotifications rt db h"
| "header_step h (Remove ident) = removeNotification ident h"

section \<open>Today's schedule of the dashboard (component Dashboard, src/unnamed/part_001)\<close>

text \<open>
  \<open>loadDashboardData\<close> also fills four counters; the model keeps the schedule it builds.
  \<open>isToday\<close>, \<open>isTomorrow\<close> and \<open>format\<close> are functions of the date library, and
  \<open>localeCompare\<close> is the runtime's collation: they are taken as they come.
  \<open>localeCompare_le a b\<close> stands for \<open>a.localeCompare(b) <= 0\<close>, and \<open>d_now_filter k\<close> is
  the clock reading made while the k-th task row is filtered. The two ranks are the
  server's arrangement of the rows of the two reads, as for the header.
\<close>

datatype item_type = TaskItem | ExamItem

record schedule_item =
  s_id :: string
  s_title :: string
  s_type :: item_type
  s_time :: string
  s_course :: "string option"
  s_priority :: "string option"
  s_completed :: "bool option"

record dash_runtime =
  d_user :: "string option"
  d_now_exams :: int
  d_now_filter :: "nat \<Rightarrow> int"
  isToday :: "int \<Rightarrow> bool"
  isTomorrow :: "int \<Rightarrow> bool"
  format_HHmm :: "int \<Rightarrow> string"
  localeCompare_le :: "string \<Rightarrow> string \<Rightarrow> bool"
  d_tasks_fail :: bool
  d_exams_fail :: bool
  d_tasks_rank :: "string \<Rightarrow> nat"
  d_exams_rank :: "string \<Rightarrow> nat"

definition select_open_tasks ::
  "(string \<Rightarrow> nat) \<Rightarrow> string \<Rightarrow> task_row list \<Rightarrow> task_row list" where
  "select_open_tasks rank uid tbl =
     server_order task_id rank (filter (\<lambda>t. task_user_id t = uid \<and> \<not> task_completed t) tbl)"

definition select_next_exam ::
  "(string \<Rightarrow> nat) \<Rightarrow> string \<Rightarrow> int \<Rightarrow> exam_row list \<Rightarrow> exam_row list" where
  "select_next_exam rank uid now tbl =
     take 1 (sort_key exam_date (server_order exam_id rank (filter (eligible_exam uid now) tbl)))"

definition d_tasks_data :: "dash_runtime \<Rightarrow> database \<Rightarrow> string \<Rightarrow> task_row list option" where
  "d_tasks_data rt db u =
     (if d_tasks_fail rt then None
      else Some (select_open_tasks (d_tasks_rank rt) u (tasks db)))"

definition d_exams_data :: "dash_runtime \<Rightarrow> database \<Rightarrow> string \<Rightarrow> exam_row list option" where
  "d_exams_data rt db u =
     (if d_exams_fail rt then None
      else Some (select_next_exam (d_exams_rank rt) u (d_now_exams rt) (exams db)))"

fun todayTasks :: "dash_runtime \<Rightarrow> nat \<Rightarrow> task_row list \<Rightarrow> task_row list" where
  "todayTasks rt k [] = []"
| "todayTasks rt k (t # ts) =
     (case task_due_date t of
        None \<Rightarrow> todayTasks rt (Suc k) ts
      | Some d \<Rightarrow>
          if isToday rt d \<or> (d < d_now_filter rt k \<and> \<not> task_completed t)
          then t # todayTasks rt (Suc k) ts
          else todayTasks rt (Suc k) ts)"

definition todayExams :: "dash_runtime \<Rightarrow> exam_row list \<Rightarrow> exam_row list" where
  "todayExams rt es = filter (\<lambda>e. isToday rt (exam_date e) \<or> isTomorrow rt (exam_date e)) es"

definition task_item :: "dash_runtime \<Rightarrow> task_row \<Rightarrow> schedule_item" where
  "task_item rt t =
     \<lparr>s_id = task_id t,
      s_title = task_title t,
      s_type = TaskItem,
      s_time = (case task_due_date t of None \<Rightarrow> ''No time'' | Some d \<Rightarrow> format_HHmm rt d),
      s_course = (case task_course t of None \<Rightarrow> None
                  | Some v \<Rightarrow> if v = [] then None else Some v),
      s_priority = Some (task_priority t),
      s_completed = Some (task_completed t)\<rparr>"

definition exam_item :: "dash_runtime \<Rightarrow> exam_row \<Rightarrow> schedule_item" where
  "exam_item rt e =
     \<lparr>s_id = exam_id e,
      s_title = exam_title e,
      s_type = ExamItem,
      s_time = format_HHmm rt (exam_date e),
      s_course = Some (exam_course e),
      s_priority = None,
      s_completed = None\<rparr>"

text \<open>\<open>Array.prototype.sort\<close> with a comparator: a stable sort.\<close>

fun insert_by :: "('a \<Rightarrow> 'a \<Rightarrow> bool) \<Rightarrow> 'a \<Rightarrow> 'a list \<Rightarrow> 'a list" where
  "insert_by le x [] = [x]"
| "insert_by le x (y # ys) = (if le x y then x # y # ys else y # insert_by le x ys)"

definition sort_by :: "('a \<Rightarrow> 'a \<Rightarrow> bool) \<Rightarrow> 'a list \<Rightarrow> 'a list" where
  "sort_by le xs = foldr (insert_by le) xs []"

definition loadDashboardData ::
  "dash_runtime \<Rightarrow> database \<Rightarrow> schedule_item list \<Rightarrow> schedule_item list" where
  "loadDashboardData rt db schedule =
     (case d_user rt of
        None \<Rightarrow> schedule
      | Some u \<Rightarrow>
          (let tasks_d = d_tasks_data rt db u;
               exams_d = d_exams_data rt db u;
               scheduleItems =
                 map (task_item rt) (todayTasks rt 0 (rows_of tasks_d)) @
                 map (exam_item rt) (todayExams rt (rows_of exams_d))
           in sort_by (\<lambda>a b. localeCompare_le rt (s_time a) (s_time b)) scheduleItems))"

text \<open>
  A concrete runtime: the time zone is UTC, the instant is 2024-01-01T00:00:00Z
  (day 19723 of the epoch), and times of day are compared byte by byte.
\<close>

definition pad2 :: "nat \<Rightarrow> string" where
  "pad2 n = (if n < 10 then CHR ''0'' # digits_of n else digits_of n)"

definition utc_HHmm :: "int \<Rightarrow> string" where
  "utc_HHmm d = pad2 (nat ((d div 3600000) mod 24)) @ '':'' @ pad2 (nat ((d div 60000) mod 60))"

fun str_le :: "string \<Rightarrow> string \<Rightarrow> bool" where
  "str_le [] ys = True"
| "str_le (x # xs) [] = False"
| "str_le (x # xs) (y # ys) =
     ((of_char x :: nat) < of_char y \<or> (x = y \<and> str_le xs ys))"

definition new_year :: int where
  "new_year = 1704067200000"

definition utc_dash :: dash_runtime where
  "utc_dash = \<lparr>d_user = Some ''u1'', d_now_exams = new_year, d_now_filter = (\<lambda>k. new_year),
     isToday = (\<lambda>d. d div 86400000 = 19723), isTomorrow = (\<lambda>d. d div 86400000 = 19724),
     format_HHmm = utc_HHmm, localeCompare_le = str_le,
     d_tasks_fail = False, d_exams_fail = False,
     d_tasks_rank = (\<lambda>i. 0), d_exams_rank = (\<lambda>i. 0)\<rparr>"

definition utc_header :: runtime where
  "utc_header = \<lparr>h_user = Some ''u1'', clock = (\<lambda>k. new_year),
     toLocaleDateString = (\<lambda>d. show_int (d div 86400000)),
     plus_seven_days = (\<lambda>d. d + 7 * 86400000),
     exams_fail = False, overdue_fail = False, upcoming_fail = False,
     exams_rank = (\<lambda>i. 0), overdue_rank = (\<lambda>i. 0), upcoming_rank = (\<lambda>i. 0)\<rparr>"

definition uuid :: "nat \<Rightarrow> string" where
  "uuid n = ''00000000-0000-4000-8000-00000000000'' @ digits_of n"

definition exam_in_days :: "nat \<Rightarrow> int \<Rightarrow> exam_row" where
  "exam_in_days n d = \<lparr>exam_id = uuid n, exam_user_id = ''u1'', exam_course = ''Math'',
     exam_title = ''Final'', exam_date = new_year + d * 86400000\<rparr>"

definition task_due :: "nat \<Rightarrow> int \<Rightarrow> task_row" where
  "task_due n ms = \<lparr>task_id = uuid n, task_user_id = ''u1'', task_title = ''Essay'',
     task_course = None, task_due_date = Some (new_year + ms), task_priority = ''medium'',
     task_completed = False\<rparr>"

text \<open>
  Six coming exams; six coming exams of which the last two are at the same instant;
  and a task and an exam, both of today, whose ids coincide.
\<close>

definition db_six_exams :: database where
  "db_six_exams = \<lparr>exams = [exam_in_days 1 1, exam_in_days 2 2, exam_in_days 3 3,
       exam_in_days 4 4, exam_in_days 5 5, exam_in_days 6 6], tasks = []\<rparr>"

definition db_tied_exams :: database where
  "db_tied_exams = \<lparr>exams = [exam_in_days 1 1, exam_in_days 2 2, exam_in_days 3 3,
       exam_in_days 4 4, exam_in_days 5 5, exam_in_days 6 5], tasks = []\<rparr>"

text \<open>An arrangement of the server that puts the row with id \<open>uuid 6\<close> first.\<close>

definition sixth_first :: "string \<Rightarrow> nat" where
  "sixth_first i = (if i = uuid 6 then 0 else 1)"

definition db_same_id :: database where
  "db_same_id = \<lparr>exams = [\<lparr>exam_id = uuid 1, exam_user_id = ''u1'', exam_course = ''Math'',
       exam_title = ''Final'', exam_date = new_year + 36000000\<rparr>],
     tasks = [task_due 1 28800000]\<rparr>"

definition db_small :: database where
  "db_small = \<lparr>exams = [exam_in_days 1 3, exam_in_days 2 (- 1)],
     tasks = [task_due 3 (- 3600000), task_due 4 86400000]\<rparr>"

text \<open>
  The states the component can reach. A collaborator is well formed when the id it
  assigns to a new row is not empty (it is a UUID); the invariant relates the four
  pieces of state and the interval.
\<close>

definition well_formed :: "collab \<Rightarrow> bool" where
  "well_formed c = (case insert_result c of Inl msg \<Rightarrow> True | Inr new_id \<Rightarrow> new_id \<noteq> [])"

fun collab_of :: "event \<Rightarrow> collab" where
  "collab_of (Toggle c) = c"
| "collab_of (Reset c) = c"
| "collab_of (Tick c) = c"

definition controller_inv :: "pomodoro \<Rightarrow> bool" where
  "controller_inv w =
     (duration w = 25 * 60 \<and> 0 \<le> timeLeft w \<and>
      (isRunning w \<longrightarrow> truthy (sessionId w)) \<and>
      (\<not> truthy (sessionId w) \<longrightarrow> timeLeft w = duration w) \<and>
      (interval_live w \<longrightarrow> isRunning w \<and> 0 < timeLeft w))"

text \<open>The row that the insert of \<open>toggleTimer\<close> creates.\<close>

definition new_row :: "collab \<Rightarrow> pomodoro \<Rightarrow> string \<Rightarrow> string \<Rightarrow> session_row" where
  "new_row c w u new_id = \<lparr>ps_id = new_id, ps_user_id = u, ps_duration = duration w div 60,
      ps_completed = False, ps_task_id = None,
      ps_started_at = server_now c, ps_completed_at = None\<rparr>"

section \<open>Properties of the pomodoro controller\<close>

subsection \<open>Renders and effects\<close>

lemma rerender_same: "deps w = deps old \<Longrightarrow> rerender c old w = w"
  by (subst rerender.simps) simp

lemma rerender_changed:
  "deps w \<noteq> deps old \<Longrightarrow> rerender c old w = rerender c w (timer_effect c (cleanup w))"
  by (subst rerender.simps) simp

lemma timer_effect_stopped: "\<not> isRunning w \<Longrightarrow> timer_effect c w = w"
  by (simp add: timer_effect_def)

lemma cleanup_fields [simp]:
  "isRunning (cleanup w) = isRunning w" "timeLeft (cleanup w) = timeLeft w"
  "sessionId (cleanup w) = sessionId w" "duration (cleanup w) = duration w"
  "pomodoro_sessions (cleanup w) = pomodoro_sessions w" "requests (cleanup w) = requests w"
  "toasts (cleanup w) = toasts w" "completeSession_calls (cleanup w) = completeSession_calls w"
  "interval_live (cleanup w) = False"
  by (simp_all add: cleanup_def)

lemma rerender_stopped:
  "\<not> isRunning w \<Longrightarrow> rerender c old w = (if deps w = deps old then w else cleanup w)"
proof (cases "deps w = deps old")
  case True
  then show ?thesis by (simp add: rerender_same)
next
  case False
  assume nr: "\<not> isRunning w"
  have "rerender c old w = rerender c w (cleanup w)"
    using False nr by (simp add: rerender_changed timer_effect_stopped)
  also have "\<dots> = cleanup w"
    by (rule rerender_same) (simp add: deps_def)
  finally show ?thesis using False by simp
qed

lemma rerender_running_positive:
  "isRunning w \<Longrightarrow> 0 < timeLeft w \<Longrightarrow>
   rerender c old w = (if deps w = deps old then w else w\<lparr>interval_live := True\<rparr>)"
proof (cases "deps w = deps old")
  case True
  then show ?thesis by (simp add: rerender_same)
next
  case False
  assume r: "isRunning w" and p: "0 < timeLeft w"
  have "rerender c old w = rerender c w (w\<lparr>interval_live := True\<rparr>)"
    using False r p by (simp add: rerender_changed timer_effect_def cleanup_def)
  also have "\<dots> = w\<lparr>interval_live := True\<rparr>"
    by (rule rerender_same) (simp add: deps_def)
  finally show ?thesis using False by simp
qed

lemma completeSession_deps:
  "deps (completeSession c w) = deps w \<or> \<not> isRunning (completeSession c w)"
  by (auto simp: completeSession_def deps_def resetTimer_def loadSessions_def Let_def
      split: option.splits)

lemma rerender_running_zero:
  assumes "isRunning w" "timeLeft w = 0" "deps w \<noteq> deps old"
  shows "rerender c old w =
     (let w1 = completeSession c (cleanup w) in if deps w1 = deps w then w1 else cleanup w1)"
proof -
  let ?w1 = "completeSession c (cleanup w)"
  have te: "timer_effect c (cleanup w) = ?w1"
    using assms by (simp add: timer_effect_def)
  have a: "rerender c old w = rerender c w ?w1"
    using assms te by (simp add: rerender_changed)
  show ?thesis
  proof (cases "deps ?w1 = deps w")
    case True
    then show ?thesis using a by (simp add: rerender_same Let_def)
  next
    case False
    have "deps ?w1 = deps (cleanup w) \<or> \<not> isRunning ?w1" by (rule completeSession_deps)
    then have "\<not> isRunning ?w1" using False assms(1) by (auto simp: deps_def)
    then show ?thesis using a False by (simp add: rerender_stopped Let_def)
  qed
qed

lemma timer_effect_deps:
  "deps (timer_effect c w) = deps w \<or> \<not> isRunning (timer_effect c w)"
  using completeSession_deps [of c w] by (auto simp: timer_effect_def deps_def)

lemma rerender_unfold:
  "rerender c old w =
     (if deps w = deps old then w
      else let w1 = timer_effect c (cleanup w) in
           if deps w1 = deps w then w1 else cleanup w1)"
proof (cases "deps w = deps old")
  case True
  then show ?thesis by (simp add: rerender_same)
next
  case False
  let ?w1 = "timer_effect c (cleanup w)"
  have a: "rerender c old w = rerender c w ?w1"
    using False by (simp add: rerender_changed)
  show ?thesis
  proof (cases "deps ?w1 = deps w")
    case True
    then show ?thesis using a False by (simp add: rerender_same Let_def)
  next
    case changed: False
    have "deps ?w1 = deps (cleanup w) \<or> \<not> isRunning ?w1" by (rule timer_effect_deps)
    then have "\<not> isRunning ?w1" using changed by (auto simp: deps_def)
    then show ?thesis using a False changed by (simp add: rerender_stopped Let_def)
  qed
qed

lemma map_ps_id_update_completed [simp]:
  "map ps_id (update_completed c sid rows) = map ps_id rows"
  by (induction rows) (simp_all add: update_completed_def)

lemma length_update_completed [simp]:
  "length (update_completed c sid rows) = length rows"
  by (simp add: update_completed_def)

lemma completeSession_inserts: "inserts (completeSession c w) = inserts w"
  by (simp add: completeSession_def inserts_def resetTimer_def loadSessions_def Let_def
      split: option.splits)

lemma completeSession_row_ids:
  "map ps_id (pomodoro_sessions (completeSession c w)) = map ps_id (pomodoro_sessions w)"
  by (simp add: completeSession_def resetTimer_def loadSessions_def Let_def
      split: option.splits)

lemma timer_effect_inserts: "inserts (timer_effect c w) = inserts w"
  by (simp add: timer_effect_def completeSession_inserts) (simp add: inserts_def)

lemma timer_effect_row_ids:
  "map ps_id (pomodoro_sessions (timer_effect c w)) = map ps_id (pomodoro_sessions w)"
  by (simp add: timer_effect_def completeSession_row_ids)

lemma rerender_inserts: "inserts (rerender c old w) = inserts w"
proof -
  have c: "inserts (cleanup v) = inserts v" for v by (simp add: inserts_def)
  show ?thesis
    by (simp add: rerender_unfold Let_def c timer_effect_inserts)
qed

lemma rerender_row_ids:
  "map ps_id (pomodoro_sessions (rerender c old w)) = map ps_id (pomodoro_sessions w)"
  by (simp add: rerender_unfold Let_def timer_effect_row_ids)

lemma toggle_open_no_insert:
  assumes "truthy (sessionId w)"
  shows "inserts (toggle c w) = inserts w"
    and "map ps_id (pomodoro_sessions (toggle c w)) = map ps_id (pomodoro_sessions w)"
proof -
  have t: "toggleTimer c w = w\<lparr>isRunning := \<not> isRunning w\<rparr>"
    using assms by (simp add: toggleTimer_def)
  show "inserts (toggle c w) = inserts w"
    unfolding toggle_def t rerender_inserts by (simp add: inserts_def)
  show "map ps_id (pomodoro_sessions (toggle c w)) = map ps_id (pomodoro_sessions w)"
    unfolding toggle_def t rerender_row_ids by simp
qed

lemma toggle_open_positive:
  assumes "truthy (sessionId w)" and "0 < timeLeft w"
  shows "toggle c w = w\<lparr>isRunning := \<not> isRunning w, interval_live := \<not> isRunning w\<rparr>"
proof (cases "isRunning w")
  case True
  then show ?thesis using assms
    by (simp add: toggle_def toggleTimer_def rerender_stopped deps_def cleanup_def)
next
  case False
  then show ?thesis using assms
    by (simp add: toggle_def toggleTimer_def rerender_running_positive deps_def)
qed

lemma toggles_open_positive:
  assumes "truthy (sessionId w)" and "0 < timeLeft w"
  shows "sessionId (foldl (\<lambda>v c. toggle c v) w cs) = sessionId w \<and>
         timeLeft (foldl (\<lambda>v c. toggle c v) w cs) = timeLeft w \<and>
         pomodoro_sessions (foldl (\<lambda>v c. toggle c v) w cs) = pomodoro_sessions w \<and>
         requests (foldl (\<lambda>v c. toggle c v) w cs) = requests w"
  using assms
proof (induction cs arbitrary: w)
  case Nil
  then show ?case by simp
next
  case (Cons c cs)
  let ?v = "w\<lparr>isRunning := \<not> isRunning w, interval_live := \<not> isRunning w\<rparr>"
  have t: "toggle c w = ?v" using Cons.prems by (rule toggle_open_positive)
  have "truthy (sessionId ?v)" "0 < timeLeft ?v" using Cons.prems by simp_all
  from Cons.IH [OF this] show ?case by (simp add: t)
qed

lemma toggle_start:
  assumes "Idle w" and "auth_user c = Some u" and "insert_result c = Inr new_id"
    and "0 < timeLeft w"
  shows "toggle c w =
     w\<lparr>requests := requests w @ [GetUser, InsertSession u (duration w div 60) False],
       pomodoro_sessions := pomodoro_sessions w @ [new_row c w u new_id],
       sessionId := Some new_id, isRunning := True, interval_live := True\<rparr>"
  using assms
  by (simp add: toggle_def toggleTimer_def Idle_def Let_def rerender_running_positive deps_def
      new_row_def)



subsection \<open>An invariant of the reachable states\<close>

lemma inv_completeSession:
  assumes "controller_inv w" and "\<not> interval_live w"
  shows "controller_inv (completeSession c w)" and "\<not> interval_live (completeSession c w)"
  using assms
  by (auto simp: controller_inv_def completeSession_def resetTimer_def loadSessions_def
      truthy_def Let_def split: option.splits)

lemma inv_timer_effect:
  assumes "controller_inv w" and "\<not> interval_live w"
  shows "controller_inv (timer_effect c w)"
proof (cases "isRunning w \<and> 0 < timeLeft w")
  case True
  then show ?thesis using assms by (simp add: timer_effect_def controller_inv_def)
next
  case False
  then show ?thesis using assms inv_completeSession(1) [OF assms, of c]
    by (auto simp: timer_effect_def)
qed

lemma inv_cleanup_weak:
  "controller_inv w \<Longrightarrow> controller_inv (cleanup w)"
  by (simp add: controller_inv_def)

lemma inv_rerender:
  assumes "controller_inv (cleanup w)"
    and "deps w = deps old \<Longrightarrow> controller_inv w"
  shows "controller_inv (rerender c old w)"
proof (cases "deps w = deps old")
  case True
  then show ?thesis using assms(2) by (simp add: rerender_same)
next
  case False
  let ?w1 = "timer_effect c (cleanup w)"
  have i1: "controller_inv ?w1"
    using assms(1) by (rule inv_timer_effect) simp
  have "controller_inv (cleanup ?w1)" using i1 by (rule inv_cleanup_weak)
  then show ?thesis using False i1 by (simp add: rerender_unfold Let_def)
qed

lemma inv_step:
  assumes "controller_inv w" and "well_formed (collab_of e)"
  shows "controller_inv (step w e)"
proof (cases e)
  case (Toggle c)
  have wf: "well_formed c" using assms(2) Toggle by simp
  have a: "controller_inv (cleanup (toggleTimer c w))"
    using assms(1) wf
    by (auto simp: controller_inv_def toggleTimer_def well_formed_def truthy_def Let_def
        split: option.splits sum.splits)
  have b: "controller_inv (toggleTimer c w)" if "deps (toggleTimer c w) = deps w"
    using that assms(1) wf
    by (auto simp: controller_inv_def toggleTimer_def well_formed_def truthy_def Let_def deps_def
        split: option.splits sum.splits if_splits)
  show ?thesis using Toggle a b by (simp add: toggle_def inv_rerender)
next
  case (Reset c)
  have a: "controller_inv (cleanup (resetTimer w))"
    using assms(1) by (simp add: controller_inv_def resetTimer_def truthy_def)
  have b: "controller_inv (resetTimer w)"
    using assms(1) by (simp add: controller_inv_def resetTimer_def truthy_def)
  show ?thesis using Reset a b by (simp add: reset_def inv_rerender)
next
  case (Tick c)
  show ?thesis
  proof (cases "interval_live w")
    case True
    have a: "controller_inv (cleanup (decrement w))"
      using assms(1) True by (auto simp: controller_inv_def decrement_def)
    have b: "controller_inv (decrement w)" if "deps (decrement w) = deps w"
      using that by (simp add: deps_def decrement_def)
    show ?thesis using Tick True a b by (simp add: tick_def inv_rerender)
  next
    case False
    then show ?thesis using Tick assms(1) by (simp add: tick_def)
  qed
qed

lemma inv_run:
  assumes "controller_inv w" and "list_all (\<lambda>e. well_formed (collab_of e)) es"
  shows "controller_inv (run w es)"
  using assms unfolding run_def
  by (induction es arbitrary: w) (simp_all add: inv_step)

lemma inv_initial: "controller_inv initial"
  by (simp add: controller_inv_def initial_def truthy_def)

lemma reachable_idle_is_full:
  assumes "list_all (\<lambda>e. well_formed (collab_of e)) es" and "Idle (run initial es)"
  shows "timeLeft (run initial es) = 25 * 60" and "0 < timeLeft (run initial es)"
    and "\<not> interval_live (run initial es)"
  using inv_run [OF inv_initial assms(1)] assms(2)
  by (auto simp: controller_inv_def Idle_def)

subsection \<open>The tick that reaches zero\<close>

lemma tick_at_one:
  assumes "interval_live w" and "isRunning w" and "timeLeft w = 1"
  shows "tick c w = completeSession c (w\<lparr>timeLeft := 0, interval_live := False\<rparr>)"
proof -
  let ?d = "decrement w"
  have d: "isRunning ?d" "timeLeft ?d = 0" "deps ?d \<noteq> deps w"
    using assms by (simp_all add: decrement_def deps_def)
  have cd: "cleanup ?d = w\<lparr>timeLeft := 0, interval_live := False\<rparr>"
    using assms(3) by (simp add: cleanup_def decrement_def)
  let ?w1 = "completeSession c (cleanup ?d)"
  have t: "tick c w = (if deps ?w1 = deps ?d then ?w1 else cleanup ?w1)"
    using assms(1) rerender_running_zero [OF d, of c] by (simp add: tick_def Let_def)
  have "cleanup ?w1 = ?w1"
    by (simp add: completeSession_def cleanup_def resetTimer_def loadSessions_def Let_def
        split: option.splits)
  then show ?thesis using t cd by simp
qed

subsection \<open>The claims about the controller\<close>

text \<open>
  Claim C1. Started from \<open>Idle\<close> (not running, no open session id), with an authenticated
  user, an insert that succeeds and a countdown that is not at zero, \<open>toggle\<close> creates
  exactly one session row, with \<open>completed = false\<close> and the configured whole minutes as
  duration, sends exactly one write, and is \<open>Running\<close> afterwards. Any number of further
  toggles (pause, resume) leaves the table, the writes and the session id as they are;
  and from any state with an open session id, a toggle sends no insert and creates no row.
  The countdown is not at zero in any \<open>Idle\<close> state that the component reaches.
\<close>

theorem start_creates_one_row:
  assumes "Idle w" and "auth_user c = Some u" and "insert_result c = Inr new_id"
    and "new_id \<noteq> []" and "0 < timeLeft w"
  shows "pomodoro_sessions (toggle c w) = pomodoro_sessions w @
           [\<lparr>ps_id = new_id, ps_user_id = u, ps_duration = duration w div 60,
             ps_completed = False, ps_task_id = None,
             ps_started_at = server_now c, ps_completed_at = None\<rparr>] \<and>
         writes (toggle c w) = writes w @ [InsertSession u (duration w div 60) False] \<and>
         Running (toggle c w) \<and> interval_live (toggle c w) \<and>
         sessionId (toggle c w) = Some new_id \<and>
         (\<forall>cs. pomodoro_sessions (foldl (\<lambda>v d. toggle d v) (toggle c w) cs) =
                 pomodoro_sessions (toggle c w) \<and>
               writes (foldl (\<lambda>v d. toggle d v) (toggle c w) cs) = writes (toggle c w) \<and>
               sessionId (foldl (\<lambda>v d. toggle d v) (toggle c w) cs) = Some new_id) \<and>
         (\<forall>d v. truthy (sessionId v) \<longrightarrow>
               inserts (toggle d v) = inserts v \<and>
               map ps_id (pomodoro_sessions (toggle d v)) = map ps_id (pomodoro_sessions v)) \<and>
         (\<forall>es. list_all (\<lambda>e. well_formed (collab_of e)) es \<and> Idle (run initial es) \<longrightarrow>
               0 < timeLeft (run initial es))"
proof -
  let ?v = "toggle c w"
  have t: "?v =
     w\<lparr>requests := requests w @ [GetUser, InsertSession u (duration w div 60) False],
       pomodoro_sessions := pomodoro_sessions w @ [new_row c w u new_id],
       sessionId := Some new_id, isRunning := True, interval_live := True\<rparr>"
    using assms(1,2,3,5) by (rule toggle_start)
  have op: "truthy (sessionId ?v)" and pos: "0 < timeLeft ?v"
    using assms(4,5) by (simp_all add: t truthy_def)
  have later: "pomodoro_sessions (foldl (\<lambda>v d. toggle d v) ?v cs) = pomodoro_sessions ?v \<and>
               writes (foldl (\<lambda>v d. toggle d v) ?v cs) = writes ?v \<and>
               sessionId (foldl (\<lambda>v d. toggle d v) ?v cs) = Some new_id" for cs
    using toggles_open_positive [OF op pos, of cs] by (simp add: writes_def) (simp add: t)
  have first: "pomodoro_sessions ?v = pomodoro_sessions w @
           [\<lparr>ps_id = new_id, ps_user_id = u, ps_duration = duration w div 60,
             ps_completed = False, ps_task_id = None,
             ps_started_at = server_now c, ps_completed_at = None\<rparr>]"
    by (simp add: t new_row_def)
  have wr: "writes ?v = writes w @ [InsertSession u (duration w div 60) False]"
    by (simp add: t writes_def)
  have st: "Running ?v" "interval_live ?v" "sessionId ?v = Some new_id"
    using assms(4) by (simp_all add: t Running_def truthy_def)
  have reach: "0 < timeLeft (run initial es)"
    if "list_all (\<lambda>e. well_formed (collab_of e)) es" "Idle (run initial es)" for es
    using that by (rule reachable_idle_is_full(2))
  have "\<forall>d v. truthy (sessionId v) \<longrightarrow>
               inserts (toggle d v) = inserts v \<and>
               map ps_id (pomodoro_sessions (toggle d v)) = map ps_id (pomodoro_sessions v)"
    using toggle_open_no_insert by blast
  moreover have "\<forall>es. list_all (\<lambda>e. well_formed (collab_of e)) es \<and> Idle (run initial es) \<longrightarrow>
               0 < timeLeft (run initial es)"
    using reach by blast
  ultimately show ?thesis
    using first wr st later by blast
qed

theorem start_creates_one_row_witness:
  "Idle initial \<and> auth_user collab_ok = Some ''u1'' \<and> insert_result collab_ok = Inr ''s1'' \<and>
   ''s1'' \<noteq> [] \<and> 0 < timeLeft initial \<and>
   pomodoro_sessions (toggle collab_ok initial) = [open_row] \<and>
   Running (toggle collab_ok initial) \<and>
   pomodoro_sessions (foldl (\<lambda>v d. toggle d v) (toggle collab_ok initial)
      [collab_ok, collab_insert_fails, collab_ok]) = [open_row] \<and>
   sessionId (foldl (\<lambda>v d. toggle d v) (toggle collab_ok initial)
      [collab_ok, collab_insert_fails, collab_ok]) = Some ''s1'' \<and>
   truthy (sessionId (running_at 1200)) \<and>
   inserts (toggle collab_ok (running_at 1200)) = inserts (running_at 1200) \<and>
   list_all (\<lambda>e. well_formed (collab_of e)) [Toggle collab_ok, Reset collab_ok] \<and>
   Idle (run initial [Toggle collab_ok, Reset collab_ok]) \<and>
   0 < timeLeft (run initial [Toggle collab_ok, Reset collab_ok])"
proof -
  have h: "Idle initial" "auth_user collab_ok = Some ''u1''"
    "insert_result collab_ok = Inr ''s1''" "''s1'' \<noteq> []" "0 < timeLeft initial"
    by (simp_all add: Idle_def initial_def truthy_def collab_ok_def)
  have r: "pomodoro_sessions initial @
      [\<lparr>ps_id = ''s1'', ps_user_id = ''u1'', ps_duration = duration initial div 60,
        ps_completed = False, ps_task_id = None,
        ps_started_at = server_now collab_ok, ps_completed_at = None\<rparr>] = [open_row]"
    by (simp add: initial_def open_row_def collab_ok_def)
  have o: "truthy (sessionId (running_at 1200))"
    by (simp add: running_at_def truthy_def)
  have wf: "list_all (\<lambda>e. well_formed (collab_of e)) [Toggle collab_ok, Reset collab_ok]"
    by (simp add: well_formed_def collab_ok_def)
  have "run initial [Toggle collab_ok, Reset collab_ok] =
        resetTimer (toggle collab_ok initial)"
    by (simp add: run_def reset_def rerender_stopped resetTimer_def cleanup_def)
  then have idle: "Idle (run initial [Toggle collab_ok, Reset collab_ok])"
    by (simp add: resetTimer_def Idle_def truthy_def)
  note t = start_creates_one_row [OF h]
  have a: "pomodoro_sessions (toggle collab_ok initial) = [open_row]"
    "Running (toggle collab_ok initial)"
    "pomodoro_sessions (foldl (\<lambda>v d. toggle d v) (toggle collab_ok initial)
      [collab_ok, collab_insert_fails, collab_ok]) = [open_row]"
    "sessionId (foldl (\<lambda>v d. toggle d v) (toggle collab_ok initial)
      [collab_ok, collab_insert_fails, collab_ok]) = Some ''s1''"
    using t unfolding r by metis+
  have b: "inserts (toggle collab_ok (running_at 1200)) = inserts (running_at 1200)"
    using t o by blast
  have c: "0 < timeLeft (run initial [Toggle collab_ok, Reset collab_ok])"
    using t wf idle by blast
  show ?thesis using h a o b wf idle c by blast
qed

text \<open>
  Claim C2. A tick while the interval is live, the timer is running and one second
  remains sets the remaining time to 0, and the render that follows calls
  \<open>completeSession\<close> exactly once, on the state with no time left: the tick is that
  one call. With an open session id it sends exactly one update of that session; when
  the update fails, or without a session id, the remaining time stays 0; when it
  succeeds, the row is completed and the call's reset restores the full duration.
\<close>

theorem tick_at_one_completes_once:
  assumes "interval_live w" and "isRunning w" and "timeLeft w = 1"
  shows "timeLeft (decrement w) = 0 \<and>
         completeSession_calls (tick c w) = Suc (completeSession_calls w) \<and>
         (\<forall>sid. sessionId w = Some sid \<and> sid \<noteq> [] \<longrightarrow>
               writes (tick c w) = writes w @ [UpdateSession sid]) \<and>
         tick c w = completeSession c (w\<lparr>timeLeft := 0, interval_live := False\<rparr>) \<and>
         (\<not> truthy (sessionId w) \<longrightarrow>
            tick c w = w\<lparr>timeLeft := 0, interval_live := False,
                          completeSession_calls := Suc (completeSession_calls w)\<rparr>) \<and>
         (\<forall>sid msg. sessionId w = Some sid \<and> sid \<noteq> [] \<and> update_error c = Some msg \<longrightarrow>
            tick c w = w\<lparr>timeLeft := 0, interval_live := False,
                          completeSession_calls := Suc (completeSession_calls w),
                          requests := requests w @ [UpdateSession sid],
                          toasts := toasts w @
                            [\<lparr>destructive = True, toast_title = ''Error completing session'',
                              toast_description = msg\<rparr>]\<rparr>) \<and>
         (\<forall>sid. sessionId w = Some sid \<and> sid \<noteq> [] \<and> update_error c = None \<longrightarrow>
            timeLeft (tick c w) = duration w \<and> \<not> isRunning (tick c w) \<and>
            \<not> interval_live (tick c w) \<and> sessionId (tick c w) = None \<and>
            pomodoro_sessions (tick c w) = update_completed c sid (pomodoro_sessions w))"
proof -
  note t = tick_at_one [OF assms, of c]
  have a: "timeLeft (decrement w) = 0" using assms(3) by (simp add: decrement_def)
  have b: "completeSession_calls (tick c w) = Suc (completeSession_calls w)"
    unfolding t
    by (simp add: completeSession_def resetTimer_def loadSessions_def Let_def
        split: option.splits)
  have wr: "writes (tick c w) = writes w @ [UpdateSession sid]"
    if "sessionId w = Some sid" "sid \<noteq> []" for sid
    unfolding t using that
    by (simp add: completeSession_def resetTimer_def loadSessions_def writes_def Let_def
        split: option.splits)
  have n: "tick c w = w\<lparr>timeLeft := 0, interval_live := False,
                          completeSession_calls := Suc (completeSession_calls w)\<rparr>"
    if "\<not> truthy (sessionId w)"
    unfolding t using that
    by (simp add: completeSession_def truthy_def Let_def split: option.splits)
  have f: "tick c w = w\<lparr>timeLeft := 0, interval_live := False,
                          completeSession_calls := Suc (completeSession_calls w),
                          requests := requests w @ [UpdateSession sid],
                          toasts := toasts w @
                            [\<lparr>destructive = True, toast_title = ''Error completing session'',
                              toast_description = msg\<rparr>]\<rparr>"
    if "sessionId w = Some sid" "sid \<noteq> []" "update_error c = Some msg" for sid msg
    unfolding t using that by (simp add: completeSession_def Let_def)
  have s: "timeLeft (tick c w) = duration w \<and> \<not> isRunning (tick c w) \<and>
            \<not> interval_live (tick c w) \<and> sessionId (tick c w) = None \<and>
            pomodoro_sessions (tick c w) = update_completed c sid (pomodoro_sessions w)"
    if "sessionId w = Some sid" "sid \<noteq> []" "update_error c = None" for sid
    unfolding t using that
    by (simp add: completeSession_def resetTimer_def loadSessions_def Let_def
        split: option.splits)
  show ?thesis using a b wr t n f s by blast
qed

theorem tick_at_one_completes_once_witness:
  "interval_live (running_at 1) \<and> isRunning (running_at 1) \<and> timeLeft (running_at 1) = 1 \<and>
   timeLeft (decrement (running_at 1)) = 0 \<and>
   completeSession_calls (tick collab_ok (running_at 1)) = 1 \<and>
   writes (tick collab_ok (running_at 1)) =
     [InsertSession ''u1'' 25 False, UpdateSession ''s1''] \<and>
   completeSession_calls (tick collab_update_fails (running_at 1)) = 1 \<and>
   writes (tick collab_update_fails (running_at 1)) =
     [InsertSession ''u1'' 25 False, UpdateSession ''s1''] \<and>
   update_error collab_update_fails = Some ''timeout'' \<and>
   timeLeft (tick collab_update_fails (running_at 1)) = 0 \<and>
   isRunning (tick collab_update_fails (running_at 1)) \<and>
   update_error collab_ok = None \<and>
   timeLeft (tick collab_ok (running_at 1)) = 1500 \<and>
   \<not> isRunning (tick collab_ok (running_at 1)) \<and>
   map ps_completed (pomodoro_sessions (tick collab_ok (running_at 1))) = [True]"
proof -
  have h: "interval_live (running_at 1)" "isRunning (running_at 1)" "timeLeft (running_at 1) = 1"
    by (simp_all add: running_at_def)
  have s: "sessionId (running_at 1) = Some ''s1'' \<and> ''s1'' \<noteq> []"
    by (simp add: running_at_def)
  have w: "writes (running_at 1) = [InsertSession ''u1'' 25 False]"
    "completeSession_calls (running_at 1) = 0"
    by (simp_all add: running_at_def writes_def)
  have e: "update_error collab_update_fails = Some ''timeout''" "update_error collab_ok = None"
    by (simp_all add: collab_update_fails_def collab_ok_def)
  note ok = tick_at_one_completes_once [OF h, of collab_ok]
  note ko = tick_at_one_completes_once [OF h, of collab_update_fails]
  have "completeSession_calls (tick collab_ok (running_at 1)) =
      Suc (completeSession_calls (running_at 1))"
    "completeSession_calls (tick collab_update_fails (running_at 1)) =
      Suc (completeSession_calls (running_at 1))"
    using ok ko by blast+
  then have c1: "completeSession_calls (tick collab_ok (running_at 1)) = 1"
    "completeSession_calls (tick collab_update_fails (running_at 1)) = 1"
    unfolding w by simp_all
  have "writes (tick collab_ok (running_at 1)) = writes (running_at 1) @ [UpdateSession ''s1'']"
    "writes (tick collab_update_fails (running_at 1)) =
      writes (running_at 1) @ [UpdateSession ''s1'']"
    using ok ko s by blast+
  then have w1: "writes (tick collab_ok (running_at 1)) =
     [InsertSession ''u1'' 25 False, UpdateSession ''s1'']"
    "writes (tick collab_update_fails (running_at 1)) =
     [InsertSession ''u1'' 25 False, UpdateSession ''s1'']"
    unfolding w by simp_all
  have "tick collab_update_fails (running_at 1) =
      (running_at 1)\<lparr>timeLeft := 0, interval_live := False,
        completeSession_calls := Suc (completeSession_calls (running_at 1)),
        requests := requests (running_at 1) @ [UpdateSession ''s1''],
        toasts := toasts (running_at 1) @
          [\<lparr>destructive = True, toast_title = ''Error completing session'',
            toast_description = ''timeout''\<rparr>]\<rparr>"
    using ko s e(1) by blast
  then have f: "timeLeft (tick collab_update_fails (running_at 1)) = 0"
    "isRunning (tick collab_update_fails (running_at 1))"
    by (simp_all add: running_at_def)
  have "timeLeft (tick collab_ok (running_at 1)) = duration (running_at 1) \<and>
      \<not> isRunning (tick collab_ok (running_at 1)) \<and>
      \<not> interval_live (tick collab_ok (running_at 1)) \<and>
      sessionId (tick collab_ok (running_at 1)) = None \<and>
      pomodoro_sessions (tick collab_ok (running_at 1)) =
        update_completed collab_ok ''s1'' (pomodoro_sessions (running_at 1))"
    using ok s e(2) by blast
  then have g: "timeLeft (tick collab_ok (running_at 1)) = 1500"
    "\<not> isRunning (tick collab_ok (running_at 1))"
    "map ps_completed (pomodoro_sessions (tick collab_ok (running_at 1))) = [True]"
    by (simp_all add: running_at_def update_completed_def open_row_def collab_ok_def)
  have d0: "timeLeft (decrement (running_at 1)) = 0" using ok by blast
  show ?thesis using h d0 c1 w1 e f g by blast
qed

text \<open>
  Claim C4. From any state, \<open>reset\<close> stops the timer and the interval, restores the remaining
  time to the full duration and clears the session id; it sends no request, and the
  table is unchanged: the open row stays as it was, not completed.
\<close>

theorem reset_restores_without_write:
  "reset c w = w\<lparr>isRunning := False, timeLeft := duration w, sessionId := None,
                  interval_live := False\<rparr> \<and>
   \<not> isRunning (reset c w) \<and> \<not> interval_live (reset c w) \<and>
   timeLeft (reset c w) = duration w \<and> sessionId (reset c w) = None \<and>
   requests (reset c w) = requests w \<and>
   pomodoro_sessions (reset c w) = pomodoro_sessions w"
proof -
  have "reset c w = resetTimer w"
    by (simp add: reset_def rerender_stopped resetTimer_def cleanup_def)
  then show ?thesis by (simp add: resetTimer_def)
qed

theorem reset_restores_without_write_witness:
  "timeLeft (running_at 1200) = 1200 \<and> timeLeft (reset collab_ok (running_at 1200)) = 1500 \<and>
   \<not> isRunning (reset collab_ok (running_at 1200)) \<and>
   sessionId (reset collab_ok (running_at 1200)) = None \<and>
   requests (reset collab_ok (running_at 1200)) = requests (running_at 1200) \<and>
   pomodoro_sessions (reset collab_ok (running_at 1200)) = [open_row] \<and>
   \<not> ps_completed open_row"
  using reset_restores_without_write [of collab_ok "running_at 1200"]
  by (simp add: running_at_def open_row_def)

text \<open>
  Claim C5. When the insert of a start fails, the error is shown as a toast and nothing
  else changes: the controller is still \<open>Idle\<close>, not running, with the same (empty)
  session id, the same remaining time, no interval and no new row.
\<close>

theorem failed_insert_keeps_idle:
  assumes "Idle w" and "auth_user c = Some u" and "insert_result c = Inl msg"
  shows "toggle c w =
           w\<lparr>requests := requests w @ [GetUser, InsertSession u (duration w div 60) False],
             toasts := toasts w @
               [\<lparr>destructive = True, toast_title = ''Error starting session'',
                 toast_description = msg\<rparr>]\<rparr> \<and>
         Idle (toggle c w) \<and> \<not> isRunning (toggle c w) \<and>
         sessionId (toggle c w) = sessionId w \<and> timeLeft (toggle c w) = timeLeft w \<and>
         interval_live (toggle c w) = interval_live w \<and>
         pomodoro_sessions (toggle c w) = pomodoro_sessions w"
proof -
  have "toggle c w =
           w\<lparr>requests := requests w @ [GetUser, InsertSession u (duration w div 60) False],
             toasts := toasts w @
               [\<lparr>destructive = True, toast_title = ''Error starting session'',
                 toast_description = msg\<rparr>]\<rparr>"
    using assms
    by (simp add: toggle_def toggleTimer_def Idle_def Let_def rerender_same deps_def)
  then show ?thesis using assms(1) by (simp add: Idle_def)
qed

theorem failed_insert_keeps_idle_witness:
  "Idle initial \<and> auth_user collab_insert_fails = Some ''u1'' \<and>
   insert_result collab_insert_fails = Inl ''permission denied'' \<and>
   Idle (toggle collab_insert_fails initial) \<and>
   timeLeft (toggle collab_insert_fails initial) = 1500 \<and>
   \<not> interval_live (toggle collab_insert_fails initial) \<and>
   pomodoro_sessions (toggle collab_insert_fails initial) = [] \<and>
   toasts (toggle collab_insert_fails initial) =
     [\<lparr>destructive = True, toast_title = ''Error starting session'',
       toast_description = ''permission denied''\<rparr>]"
proof -
  have h: "Idle initial" "auth_user collab_insert_fails = Some ''u1''"
    "insert_result collab_insert_fails = Inl ''permission denied''"
    by (simp_all add: Idle_def initial_def truthy_def collab_insert_fails_def collab_ok_def)
  show ?thesis
    using h failed_insert_keeps_idle [OF h] by (simp add: initial_def Idle_def truthy_def)
qed

text \<open>
  Claim C9. Without an open session id, \<open>completeSession\<close> returns at once: apart from the
  count of its calls, the state is unchanged; no request is sent, and the remaining
  time, the running flag and the session id stay as they are.
\<close>

theorem completeSession_no_session_noop:
  assumes "\<not> truthy (sessionId w)"
  shows "completeSession c w = w\<lparr>completeSession_calls := Suc (completeSession_calls w)\<rparr> \<and>
         requests (completeSession c w) = requests w \<and>
         pomodoro_sessions (completeSession c w) = pomodoro_sessions w \<and>
         toasts (completeSession c w) = toasts w \<and>
         timeLeft (completeSession c w) = timeLeft w \<and>
         isRunning (completeSession c w) = isRunning w \<and>
         sessionId (completeSession c w) = sessionId w"
proof -
  have "completeSession c w = w\<lparr>completeSession_calls := Suc (completeSession_calls w)\<rparr>"
    using assms by (simp add: completeSession_def truthy_def Let_def split: option.splits)
  then show ?thesis by simp
qed

theorem completeSession_no_session_noop_witness:
  "\<not> truthy (sessionId (reset collab_ok (running_at 1200))) \<and>
   completeSession collab_ok initial = initial\<lparr>completeSession_calls := 1\<rparr> \<and>
   \<not> truthy (sessionId initial)"
proof -
  have h: "\<not> truthy (sessionId initial)" by (simp add: initial_def truthy_def)
  show ?thesis
    using h completeSession_no_session_noop [OF h, of collab_ok]
    by (simp add: initial_def truthy_def reset_def resetTimer_def rerender_stopped cleanup_def)
qed

section \<open>Properties of the notifications and of the schedule\<close>

subsection \<open>Ids, rows and evaluation\<close>

lemma ids_exam_notifs: "map n_id (exam_notifs rt k es) = map (\<lambda>e. ''exam-'' @ exam_id e) es"
  by (induction es arbitrary: k) (simp_all add: exam_notif_def)

lemma ids_upcoming_notifs:
  "map n_id (upcoming_notifs rt k ts) = map (\<lambda>t. ''upcoming-'' @ task_id t) ts"
  by (induction ts arbitrary: k) (simp_all add: upcoming_notif_def)

lemma ids_overdue_notifs:
  "map n_id (map (overdue_notif rt) ts) = map (\<lambda>t. ''overdue-'' @ task_id t) ts"
  by (simp add: overdue_notif_def)

lemma ids_build_notifs:
  "map n_id (build_notifs rt ex od up) =
     map (\<lambda>e. ''exam-'' @ exam_id e) (rows_of ex) @
     map (\<lambda>t. ''overdue-'' @ task_id t) (rows_of od) @
     map (\<lambda>t. ''upcoming-'' @ task_id t) (rows_of up)"
  by (simp add: build_notifs_def rows_of_def ids_exam_notifs ids_upcoming_notifs
      overdue_notif_def split: option.splits)

lemma distinct_prefixed:
  "distinct (map f xs) \<Longrightarrow> distinct (map (\<lambda>x. p @ f x) xs)"
  by (induction xs) auto

lemma distinct_map_take: "distinct (map f xs) \<Longrightarrow> distinct (map f (take n xs))"
  by (simp add: take_map [symmetric])

lemma distinct_map_sort_key: "distinct (map f xs) \<Longrightarrow> distinct (map f (sort_key k xs))"
  by (simp add: distinct_map)

lemma distinct_select_exams:
  "distinct (map exam_id tbl) \<Longrightarrow> distinct (map exam_id (select_exams r u now tbl))"
  unfolding select_exams_def server_order_def
  by (intro distinct_map_take distinct_map_sort_key distinct_map_filter)

lemma distinct_select_overdue:
  "distinct (map task_id tbl) \<Longrightarrow> distinct (map task_id (select_overdue r u now tbl))"
  unfolding select_overdue_def server_order_def
  by (intro distinct_map_take distinct_map_sort_key distinct_map_filter)

lemma distinct_select_upcoming:
  "distinct (map task_id tbl) \<Longrightarrow> distinct (map task_id (select_upcoming r u now s tbl))"
  unfolding select_upcoming_def server_order_def
  by (intro distinct_map_take distinct_map_sort_key distinct_map_filter)

lemma distinct_rows_exams:
  "distinct (map exam_id (exams db)) \<Longrightarrow> distinct (map exam_id (rows_of (exams_data rt db u)))"
  by (simp add: exams_data_def rows_of_def distinct_select_exams)

lemma distinct_rows_overdue:
  "distinct (map task_id (tasks db)) \<Longrightarrow> distinct (map task_id (rows_of (overdue_data rt db u)))"
  by (simp add: overdue_data_def rows_of_def distinct_select_overdue)

lemma distinct_rows_upcoming:
  "distinct (map task_id (tasks db)) \<Longrightarrow> distinct (map task_id (rows_of (upcoming_data rt db u)))"
  by (simp add: upcoming_data_def rows_of_def distinct_select_upcoming)

lemma distinct_three_sources:
  assumes "distinct (map exam_id es)" and "distinct (map task_id os)"
    and "distinct (map task_id us)"
  shows "distinct (map (\<lambda>e. ''exam-'' @ exam_id e) es @
                   map (\<lambda>t. ''overdue-'' @ task_id t) os @
                   map (\<lambda>t. ''upcoming-'' @ task_id t) us)"
proof -
  let ?A = "map (\<lambda>e. ''exam-'' @ exam_id e) es"
  let ?B = "map (\<lambda>t. ''overdue-'' @ task_id t) os"
  let ?C = "map (\<lambda>t. ''upcoming-'' @ task_id t) us"
  have a: "distinct ?A" using assms(1) by (rule distinct_prefixed)
  have b: "distinct ?B" using assms(2) by (rule distinct_prefixed)
  have c: "distinct ?C" using assms(3) by (rule distinct_prefixed)
  have bc: "set ?B \<inter> set ?C = {}" by auto
  have abc: "set ?A \<inter> set (?B @ ?C) = {}" by auto
  have "distinct (?B @ ?C)" using b c bc by (simp only: distinct_append simp_thms)
  then show ?thesis using a abc by (simp only: distinct_append simp_thms)
qed

lemma set_insert_by: "set (insert_by le x xs) = insert x (set xs)"
  by (induction xs) auto

lemma set_sort_by: "set (sort_by le xs) = set xs"
  by (induction xs) (simp_all add: sort_by_def set_insert_by)

lemma set_todayTasks: "set (todayTasks rt k ts) \<subseteq> set ts"
  by (induction ts arbitrary: k) (auto split: option.splits)

lemma dashboard_ids_raw:
  assumes "d_user rt = Some u"
  shows "set (map s_id (loadDashboardData rt db sched)) \<subseteq>
         set (map task_id (tasks db)) \<union> set (map exam_id (exams db))"
proof -
  have t: "set (rows_of (d_tasks_data rt db u)) \<subseteq> set (tasks db)"
    by (auto simp: rows_of_def d_tasks_data_def select_open_tasks_def server_order_def)
  have e: "set (rows_of (d_exams_data rt db u)) \<subseteq> set (exams db)"
    by (auto simp: rows_of_def d_exams_data_def select_next_exam_def server_order_def
        dest: in_set_takeD)
  show ?thesis
    using assms t e set_todayTasks [of rt 0]
    by (auto simp: loadDashboardData_def Let_def set_sort_by task_item_def exam_item_def
        todayExams_def) blast+
qed

lemma length_filter_key:
  "distinct (map f xs) \<Longrightarrow>
   length (filter (\<lambda>y. f y = v) xs) = (if v \<in> f ` set xs then 1 else 0)"
  by (induction xs) auto

lemma items_with_id_exam:
  "length (items_with_id (''exam-'' @ x) (build_notifs rt ex od up)) =
   length (filter (\<lambda>e. exam_id e = x) (rows_of ex))"
proof -
  have "length (items_with_id (''exam-'' @ x) (build_notifs rt ex od up)) =
        length (filter (\<lambda>i. i = ''exam-'' @ x) (map n_id (build_notifs rt ex od up)))"
    by (simp add: items_with_id_def filter_map o_def)
  also have "\<dots> = length (filter (\<lambda>e. exam_id e = x) (rows_of ex))"
    by (simp add: ids_build_notifs filter_map o_def)
  finally show ?thesis .
qed

lemma select_exams_subset:
  "set (select_exams r u now tbl) \<subseteq> {e \<in> set tbl. eligible_exam u now e}"
  by (auto simp: select_exams_def server_order_def dest: in_set_takeD)

lemma select_exams_all:
  assumes "length (filter (eligible_exam u now) tbl) \<le> 5"
  shows "set (select_exams r u now tbl) = {e \<in> set tbl. eligible_exam u now e}"
proof -
  have "length (sort_key exam_date
          (server_order exam_id r (filter (eligible_exam u now) tbl))) \<le> 5"
    using assms by (simp add: server_order_def)
  then show ?thesis
    by (simp add: select_exams_def server_order_def)
qed

lemma exam_item_count:
  assumes "h_user rt = Some u" and "\<not> exams_fail rt"
    and "distinct (map exam_id (exams db))" and "e \<in> set (exams db)"
  shows "length (items_with_id (''exam-'' @ exam_id e) (notifications (loadNotifications rt db h)))
         = (if e \<in> set (select_exams (exams_rank rt) u (clock rt 0) (exams db)) then 1 else 0)"
proof -
  let ?sel = "select_exams (exams_rank rt) u (clock rt 0) (exams db)"
  have rows: "rows_of (exams_data rt db u) = ?sel"
    using assms(2) by (simp add: exams_data_def rows_of_def)
  have "length (items_with_id (''exam-'' @ exam_id e)
          (notifications (loadNotifications rt db h))) =
        length (filter (\<lambda>x. exam_id x = exam_id e) ?sel)"
  proof -
    have "notifications (loadNotifications rt db h) =
          build_notifs rt (exams_data rt db u) (overdue_data rt db u) (upcoming_data rt db u)"
      using assms(1) by (simp add: loadNotifications_def Let_def)
    then show ?thesis unfolding rows [symmetric] by (simp only: items_with_id_exam)
  qed
  also have "\<dots> = (if exam_id e \<in> exam_id ` set ?sel then 1 else 0)"
    using distinct_select_exams [OF assms(3)] by (rule length_filter_key)
  also have "\<dots> = (if e \<in> set ?sel then 1 else 0)"
  proof -
    have inj: "inj_on exam_id (set (exams db))"
      using assms(3) by (simp add: distinct_map)
    have sub: "set ?sel \<subseteq> set (exams db)"
      using select_exams_subset [of "exams_rank rt" u "clock rt 0" "exams db"] by auto
    have "exam_id e \<in> exam_id ` set ?sel \<longleftrightarrow> e \<in> set ?sel"
      using inj sub assms(4) by (auto dest: inj_onD)
    then show ?thesis by simp
  qed
  finally show ?thesis .
qed

lemma digits_small: "n < 10 \<Longrightarrow> digits_of n = [''0123456789'' ! n]"
  by (simp add: digits_of.simps)

lemmas header_eval =
  loadNotifications_def build_notifs_def exams_data_def overdue_data_def upcoming_data_def
  select_exams_def select_overdue_def select_upcoming_def server_order_def eligible_exam_def
  rows_of_def exam_notif_def overdue_notif_def upcoming_notif_def course_or_General_def new_Date_def
  daysUntil_def show_int_def digits_small items_with_id_def uuid_def
  utc_header_def exam_in_days_def task_due_def new_year_def Let_def

lemmas dash_eval =
  loadDashboardData_def d_tasks_data_def d_exams_data_def select_open_tasks_def
  select_next_exam_def server_order_def eligible_exam_def rows_of_def todayExams_def task_item_def exam_item_def sort_by_def utc_HHmm_def pad2_def
  digits_small uuid_def utc_dash_def task_due_def new_year_def Let_def

lemma daysUntil_ceiling:
  "daysUntil target now = \<lceil>real_of_int (target - now) / 86400000\<rceil>"
proof -
  have "\<lceil>real_of_int (target - now) / real_of_int 86400000\<rceil> = - (- (target - now) div 86400000)"
    by (rule ceiling_divide_eq_div)
  then show ?thesis by (simp add: daysUntil_def)
qed

lemma exam_notifs_nth:
  "i < length es \<Longrightarrow> exam_notifs rt k es ! i = exam_notif rt (clock rt (k + i)) (es ! i)"
proof (induction es arbitrary: k i)
  case Nil
  then show ?case by simp
next
  case (Cons e es)
  show ?case
  proof (cases i)
    case 0
    then show ?thesis by simp
  next
    case (Suc j)
    then have "j < length es" using Cons.prems by simp
    from Cons.IH [OF this, of "Suc k"] show ?thesis using Suc by simp
  qed
qed

lemma upcoming_notifs_nth:
  "i < length ts \<Longrightarrow>
   upcoming_notifs rt k ts ! i = upcoming_notif rt (clock rt (k + i)) (ts ! i)"
proof (induction ts arbitrary: k i)
  case Nil
  then show ?case by simp
next
  case (Cons t ts)
  show ?case
  proof (cases i)
    case 0
    then show ?thesis by simp
  next
    case (Suc j)
    then have "j < length ts" using Cons.prems by simp
    from Cons.IH [OF this, of "Suc k"] show ?thesis using Suc by simp
  qed
qed

lemma length_exam_notifs [simp]: "length (exam_notifs rt k es) = length es"
  by (induction es arbitrary: k) simp_all

lemma length_upcoming_notifs [simp]: "length (upcoming_notifs rt k ts) = length ts"
  by (induction ts arbitrary: k) simp_all

lemma build_notifs_rows:
  "build_notifs rt ex od up =
     exam_notifs rt 4 (rows_of ex) @ map (overdue_notif rt) (rows_of od) @
     upcoming_notifs rt (4 + length (rows_of ex)) (rows_of up)"
  by (simp add: build_notifs_def rows_of_def split: option.splits)

lemma build_notifs_exam_nth:
  assumes "i < length (rows_of ex)"
  shows "build_notifs rt ex od up ! i = exam_notif rt (clock rt (4 + i)) (rows_of ex ! i)"
  using assms by (simp add: build_notifs_rows nth_append exam_notifs_nth)

lemma build_notifs_upcoming_nth:
  assumes "j < length (rows_of up)"
  shows "build_notifs rt ex od up ! (length (rows_of ex) + length (rows_of od) + j) =
         upcoming_notif rt (clock rt (4 + length (rows_of ex) + j)) (rows_of up ! j)"
  using assms by (simp add: build_notifs_rows nth_append upcoming_notifs_nth)

lemma loadNotifications_list:
  "h_user rt = Some u \<Longrightarrow>
   notifications (loadNotifications rt db h) =
     build_notifs rt (exams_data rt db u) (overdue_data rt db u) (upcoming_data rt db u)"
  by (simp add: loadNotifications_def Let_def)

lemma rows_of_simps [simp]: "rows_of None = []" "rows_of (Some rows) = rows"
  by (simp_all add: rows_of_def)

lemma build_notifs_failed:
  "build_notifs rt ex od up =
   build_notifs rt (Some (rows_of ex)) (Some (rows_of od)) (Some (rows_of up))"
  by (simp add: build_notifs_rows)

lemma filter_other_ids:
  "distinct (map f xs) \<Longrightarrow> x \<in> set xs \<Longrightarrow> filter (\<lambda>y. f y \<noteq> f x) xs = remove1 x xs"
proof (induction xs)
  case Nil
  then show ?case by simp
next
  case (Cons a xs)
  show ?case
  proof (cases "a = x")
    case True
    have "\<forall>y \<in> set xs. f y \<noteq> f x" using Cons.prems True by (fastforce simp: image_iff)
    then have "filter (\<lambda>y. f y \<noteq> f x) xs = xs" by (simp add: filter_id_conv)
    then show ?thesis using True by simp
  next
    case False
    then have "x \<in> set xs" using Cons.prems by simp
    moreover have "f a \<noteq> f x" using Cons.prems False \<open>x \<in> set xs\<close> by auto
    ultimately show ?thesis using Cons False by simp
  qed
qed

lemma header_step_nonneg: "0 \<le> unreadCount h \<Longrightarrow> 0 \<le> unreadCount (header_step h op)"
  by (cases op) (simp_all add: loadNotifications_def removeNotification_def Let_def
      split: option.splits)

lemma header_run_nonneg: "0 \<le> unreadCount h \<Longrightarrow> 0 \<le> unreadCount (foldl header_step h ops)"
  by (induction ops arbitrary: h) (simp_all add: header_step_nonneg)

subsection \<open>The cut of a sorted read\<close>

lemma sorted_take_drop:
  assumes "sorted (map f xs)" and "x \<in> set (take n xs)" and "y \<in> set (drop n xs)"
  shows "f x \<le> f y"
proof -
  have "sorted (map f (take n xs) @ map f (drop n xs))"
    using assms(1) by (simp add: map_append [symmetric] del: map_append)
  then show ?thesis using assms(2,3) by (auto simp: sorted_append)
qed

lemma in_take_or_drop: "x \<in> set xs \<Longrightarrow> x \<in> set (take n xs) \<or> x \<in> set (drop n xs)"
proof -
  assume "x \<in> set xs"
  then have "x \<in> set (take n xs @ drop n xs)" by simp
  then show ?thesis by (simp only: set_append Un_iff)
qed

lemma length_filter_take_drop:
  "length (filter P xs) = length (filter P (take n xs)) + length (filter P (drop n xs))"
proof -
  have "filter P xs = filter P (take n xs @ drop n xs)" by simp
  then show ?thesis by (simp only: filter_append length_append)
qed

lemma sorted_few_before_kept:
  assumes "sorted (map f xs)" and "e \<in> set xs"
    and "length (filter (\<lambda>x. f x \<le> f e) xs) \<le> n"
  shows "e \<in> set (take n xs)"
proof (rule ccontr)
  assume out: "e \<notin> set (take n xs)"
  then have d: "e \<in> set (drop n xs)" using in_take_or_drop [OF assms(2), of n] by blast
  then have long: "n < length xs" by (cases "n < length xs") auto
  have "\<forall>x \<in> set (take n xs). f x \<le> f e"
    using sorted_take_drop [OF assms(1) _ d] by blast
  then have "filter (\<lambda>x. f x \<le> f e) (take n xs) = take n xs"
    by (simp add: filter_id_conv)
  then have a: "length (filter (\<lambda>x. f x \<le> f e) (take n xs)) = n" using long by simp
  have "e \<in> set (filter (\<lambda>x. f x \<le> f e) (drop n xs))" using d by simp
  then have b: "0 < length (filter (\<lambda>x. f x \<le> f e) (drop n xs))"
    by (cases "filter (\<lambda>x. f x \<le> f e) (drop n xs)") auto
  show False
    using assms(3) a b length_filter_take_drop [of "\<lambda>x. f x \<le> f e" xs n] by simp
qed

lemma sorted_many_before_cut:
  assumes "sorted (map f xs)"
    and "n \<le> length (filter (\<lambda>x. f x < f e) xs)"
  shows "e \<notin> set (take n xs)"
proof
  assume k: "e \<in> set (take n xs)"
  have "\<forall>y \<in> set (drop n xs). \<not> f y < f e"
    using sorted_take_drop [OF assms(1) k] by (auto simp: not_less)
  then have a: "filter (\<lambda>x. f x < f e) (drop n xs) = []"
    by (simp add: filter_empty_conv)
  have "length (filter (\<lambda>x. f x < f e) (take n xs)) < length (take n xs)"
    using k by (intro length_filter_less) auto
  then have "length (filter (\<lambda>x. f x < f e) (take n xs)) < n" by simp
  then show False
    using assms(2) a length_filter_take_drop [of "\<lambda>x. f x < f e" xs n] by simp
qed

lemma arranged_sorted:
  "sorted (map exam_date (sort_key exam_date (server_order exam_id r rows)))"
  by (rule sorted_sort_key)

lemma arranged_length_filter:
  "length (filter P (sort_key exam_date (server_order exam_id r (filter Q tbl)))) =
   length (filter (\<lambda>x. Q x \<and> P x) tbl)"
  by (simp add: server_order_def filter_sort)

lemma arranged_set:
  "set (sort_key exam_date (server_order exam_id r (filter Q tbl))) = {x \<in> set tbl. Q x}"
  by (simp add: server_order_def)

lemma select_exams_kept:
  assumes "e \<in> set tbl" and "eligible_exam u now e"
    and "length (filter (\<lambda>x. eligible_exam u now x \<and> exam_date x \<le> exam_date e) tbl) \<le> 5"
  shows "e \<in> set (select_exams r u now tbl)"
  unfolding select_exams_def
proof (rule sorted_few_before_kept [where f = exam_date])
  show "sorted (map exam_date
      (sort_key exam_date (server_order exam_id r (filter (eligible_exam u now) tbl))))"
    by (rule arranged_sorted)
  show "e \<in> set (sort_key exam_date (server_order exam_id r (filter (eligible_exam u now) tbl)))"
    using assms(1,2) by (simp add: server_order_def)
  show "length (filter (\<lambda>x. exam_date x \<le> exam_date e)
      (sort_key exam_date (server_order exam_id r (filter (eligible_exam u now) tbl)))) \<le> 5"
    using assms(3) by (simp only: arranged_length_filter)
qed

lemma select_exams_cut:
  assumes "5 \<le> length (filter (\<lambda>x. eligible_exam u now x \<and> exam_date x < exam_date e) tbl)"
  shows "e \<notin> set (select_exams r u now tbl)"
  unfolding select_exams_def
proof (rule sorted_many_before_cut [where f = exam_date])
  show "sorted (map exam_date
      (sort_key exam_date (server_order exam_id r (filter (eligible_exam u now) tbl))))"
    by (rule arranged_sorted)
  show "5 \<le> length (filter (\<lambda>x. exam_date x < exam_date e)
      (sort_key exam_date (server_order exam_id r (filter (eligible_exam u now) tbl))))"
    using assms by (simp only: arranged_length_filter)
qed

lemma select_exams_earliest:
  assumes "e \<in> set (select_exams r u now tbl)" and "e' \<in> set tbl"
    and "eligible_exam u now e'" and "e' \<notin> set (select_exams r u now tbl)"
  shows "exam_date e \<le> exam_date e'"
proof -
  let ?xs = "sort_key exam_date (server_order exam_id r (filter (eligible_exam u now) tbl))"
  have "e' \<in> set ?xs" using assms(2,3) by (simp add: server_order_def)
  then have "e' \<in> set (drop 5 ?xs)"
    using assms(4) in_take_or_drop [of e' ?xs 5] by (auto simp: select_exams_def)
  moreover have "e \<in> set (take 5 ?xs)" using assms(1) by (simp add: select_exams_def)
  ultimately show ?thesis
    using sorted_take_drop [OF arranged_sorted] by blast
qed

lemma length_select_exams:
  "length (select_exams r u now tbl) = min 5 (length (filter (eligible_exam u now) tbl))"
  by (simp add: select_exams_def server_order_def min.commute)

lemma exam_items_total:
  "length (filter (\<lambda>n. take 5 (n_id n) = ''exam-'') (build_notifs rt ex od up)) =
   length (rows_of ex)"
proof -
  have "length (filter (\<lambda>n. take 5 (n_id n) = ''exam-'') (build_notifs rt ex od up)) =
        length (filter (\<lambda>i. take 5 i = ''exam-'') (map n_id (build_notifs rt ex od up)))"
    by (simp add: filter_map o_def)
  also have "\<dots> = length (rows_of ex)"
    by (simp add: ids_build_notifs filter_map o_def)
  finally show ?thesis .
qed

subsection \<open>Every arrangement of the server is covered\<close>

text \<open>
  Whatever order the server gives to the rows of a read, there is a rank under which the
  model returns them in that order; for the exams, whatever list of the eligible rows
  in ascending date the server cuts, the model cuts the same.
\<close>

lemma place_nth:
  assumes "distinct (map ident xs)" and "j < length xs"
  shows "place ident xs (ident (xs ! j)) = j"
proof -
  have "takeWhile (\<lambda>x. ident x \<noteq> ident (xs ! j)) xs = take j xs"
  proof (rule takeWhile_eq_take_P_nth)
    fix i assume "i < j" "i < length xs"
    then have "map ident xs ! i \<noteq> map ident xs ! j"
      using assms by (simp add: nth_eq_iff_index_eq del: nth_map)
    then show "ident (xs ! i) \<noteq> ident (xs ! j)"
      using \<open>i < length xs\<close> assms(2) by simp
  next
    show "\<not> ident (xs ! j) \<noteq> ident (xs ! j)" by simp
  qed
  then show ?thesis using assms(2) by (simp add: place_def)
qed

lemma filter_eq_single:
  "distinct zs \<Longrightarrow> k \<in> set zs \<Longrightarrow> filter (\<lambda>x. k = x) zs = [k]"
proof (induction zs)
  case Nil
  then show ?case by simp
next
  case (Cons z zs)
  show ?case
  proof (cases "k = z")
    case True
    then have "\<forall>x \<in> set zs. k \<noteq> x" using Cons.prems by auto
    then have "filter (\<lambda>x. k = x) zs = []" by (simp add: filter_empty_conv)
    then show ?thesis using True by simp
  next
    case False
    then show ?thesis using Cons by auto
  qed
qed

lemma server_order_complete:
  assumes "mset xs = mset rows" and "distinct (map ident rows)"
  shows "server_order ident (place ident xs) rows = xs"
  unfolding server_order_def
proof (rule properties_for_sort_key)
  let ?f = "\<lambda>r. place ident xs (ident r)"
  have dm: "distinct (map ident xs)"
    using assms mset_eq_imp_distinct_iff [of "map ident xs" "map ident rows"] by simp
  have dx: "distinct xs" using dm by (simp add: distinct_map)
  have dr: "distinct rows" using assms(2) by (simp add: distinct_map)
  have sets: "set rows = set xs" using assms(1) by (metis mset_eq_setD)
  have val: "?f (xs ! j) = j" if "j < length xs" for j
    using dm that by (rule place_nth)
  show "mset xs = mset rows" by (rule assms(1))
  show "sorted (map ?f xs)"
    by (simp add: sorted_iff_nth_mono val)
  have inj: "x = y" if mx: "x \<in> set xs" and my: "y \<in> set xs" and eq: "?f x = ?f y" for x y
  proof -
    obtain i where i: "i < length xs" "xs ! i = x" using mx by (auto simp: in_set_conv_nth)
    obtain j where j: "j < length xs" "xs ! j = y" using my by (auto simp: in_set_conv_nth)
    have "i = j" using eq val [OF i(1)] val [OF j(1)] i(2) j(2) by simp
    then show ?thesis using i(2) j(2) by simp
  qed
  show "filter (\<lambda>x. ?f k = ?f x) xs = filter (\<lambda>x. ?f k = ?f x) rows" if "k \<in> set xs" for k
  proof -
    have a: "filter (\<lambda>x. ?f k = ?f x) xs = filter (\<lambda>x. k = x) xs"
      using that inj by (intro filter_cong) auto
    have b: "filter (\<lambda>x. ?f k = ?f x) rows = filter (\<lambda>x. k = x) rows"
      using that inj sets by (intro filter_cong) auto
    show ?thesis
      unfolding a b using that sets dx dr by (simp add: filter_eq_single)
  qed
qed

lemma select_exams_complete:
  assumes "mset xs = mset (filter (eligible_exam u now) tbl)"
    and "sorted (map exam_date xs)" and "distinct (map exam_id tbl)"
  shows "select_exams (place exam_id xs) u now tbl = take 5 xs"
proof -
  have "distinct (map exam_id (filter (eligible_exam u now) tbl))"
    using assms(3) by (rule distinct_map_filter)
  then have "server_order exam_id (place exam_id xs) (filter (eligible_exam u now) tbl) = xs"
    using assms(1) by (intro server_order_complete)
  then show ?thesis
    using assms(2) by (simp add: select_exams_def sort_key_id_if_sorted)
qed

subsection \<open>Ids and types of the schedule\<close>

lemma mset_insert_by: "mset (insert_by le x xs) = add_mset x (mset xs)"
  by (induction xs) simp_all

lemma mset_sort_by: "mset (sort_by le xs) = mset xs"
  by (induction xs) (simp_all add: sort_by_def mset_insert_by)

lemma distinct_todayTasks:
  "distinct (map task_id ts) \<Longrightarrow> distinct (map task_id (todayTasks rt k ts))"
proof (induction ts arbitrary: k)
  case Nil
  then show ?case by simp
next
  case (Cons t ts)
  have "task_id t \<notin> task_id ` set (todayTasks rt (Suc k) ts)"
    using Cons.prems set_todayTasks [of rt "Suc k" ts] by auto
  then show ?case using Cons by (auto split: option.splits)
qed

lemma distinct_d_tasks:
  "distinct (map task_id (tasks db)) \<Longrightarrow> distinct (map task_id (rows_of (d_tasks_data rt db u)))"
  by (simp add: d_tasks_data_def rows_of_def select_open_tasks_def server_order_def
      distinct_map_sort_key distinct_map_filter)

lemma distinct_d_exams:
  "distinct (map exam_id (exams db)) \<Longrightarrow> distinct (map exam_id (rows_of (d_exams_data rt db u)))"
  by (simp add: d_exams_data_def rows_of_def select_next_exam_def server_order_def
      distinct_map_take distinct_map_sort_key distinct_map_filter)

lemma dashboard_pairs:
  assumes "d_user rt = Some u"
  shows "mset (map (\<lambda>i. (s_id i, s_type i)) (loadDashboardData rt db sched)) =
         mset (map (\<lambda>t. (task_id t, TaskItem)) (todayTasks rt 0 (rows_of (d_tasks_data rt db u)))) +
         mset (map (\<lambda>e. (exam_id e, ExamItem)) (todayExams rt (rows_of (d_exams_data rt db u))))"
proof -
  let ?items = "map (task_item rt) (todayTasks rt 0 (rows_of (d_tasks_data rt db u))) @
                map (exam_item rt) (todayExams rt (rows_of (d_exams_data rt db u)))"
  have l: "loadDashboardData rt db sched =
      sort_by (\<lambda>a b. localeCompare_le rt (s_time a) (s_time b)) ?items"
    using assms by (simp add: loadDashboardData_def Let_def)
  have a: "mset (map (\<lambda>i. (s_id i, s_type i)) (loadDashboardData rt db sched)) =
        mset (map (\<lambda>i. (s_id i, s_type i)) ?items)"
    unfolding l by (simp only: mset_map mset_sort_by)
  have b: "map (\<lambda>i. (s_id i, s_type i)) ?items =
      map (\<lambda>t. (task_id t, TaskItem)) (todayTasks rt 0 (rows_of (d_tasks_data rt db u))) @
      map (\<lambda>e. (exam_id e, ExamItem)) (todayExams rt (rows_of (d_exams_data rt db u)))"
    by (simp add: task_item_def exam_item_def)
  show ?thesis unfolding a b by (simp only: mset_append)
qed

lemma dashboard_pairs_distinct:
  assumes "d_user rt = Some u" and "distinct (map task_id (tasks db))"
    and "distinct (map exam_id (exams db))"
  shows "distinct (map (\<lambda>i. (s_id i, s_type i)) (loadDashboardData rt db sched))"
proof -
  let ?T = "map (\<lambda>t. (task_id t, TaskItem)) (todayTasks rt 0 (rows_of (d_tasks_data rt db u)))"
  let ?E = "map (\<lambda>e. (exam_id e, ExamItem)) (todayExams rt (rows_of (d_exams_data rt db u)))"
  have "distinct (map task_id (todayTasks rt 0 (rows_of (d_tasks_data rt db u))))"
    using assms(2) by (intro distinct_todayTasks distinct_d_tasks)
  then have t: "distinct ?T" by (simp add: distinct_map inj_on_def)
  have "distinct (map exam_id (todayExams rt (rows_of (d_exams_data rt db u))))"
    unfolding todayExams_def using assms(3) by (intro distinct_map_filter distinct_d_exams)
  then have e: "distinct ?E" by (simp add: distinct_map inj_on_def)
  have "set ?T \<inter> set ?E = {}" by auto
  then have "distinct (?T @ ?E)" using t e by (simp only: distinct_append simp_thms)
  then have d: "distinct (?T @ ?E)" .
  have m: "mset (map (\<lambda>i. (s_id i, s_type i)) (loadDashboardData rt db sched)) =
      mset (?T @ ?E)"
    using dashboard_pairs [OF assms(1), of db sched] by (simp only: mset_append)
  show ?thesis using mset_eq_imp_distinct_iff [OF m] d by blast
qed

lemma dashboard_item_source:
  assumes "d_user rt = Some u" and "i \<in> set (loadDashboardData rt db sched)"
  shows "(s_type i = TaskItem \<and> s_id i \<in> task_id ` set (tasks db)) \<or>
         (s_type i = ExamItem \<and> s_id i \<in> exam_id ` set (exams db))"
proof -
  have t: "set (rows_of (d_tasks_data rt db u)) \<subseteq> set (tasks db)"
    by (auto simp: rows_of_def d_tasks_data_def select_open_tasks_def server_order_def)
  have e: "set (rows_of (d_exams_data rt db u)) \<subseteq> set (exams db)"
    by (auto simp: rows_of_def d_exams_data_def select_next_exam_def server_order_def
        dest: in_set_takeD)
  have "i \<in> task_item rt ` set (todayTasks rt 0 (rows_of (d_tasks_data rt db u))) \<or>
        i \<in> exam_item rt ` set (todayExams rt (rows_of (d_exams_data rt db u)))"
    using assms by (auto simp: loadDashboardData_def Let_def set_sort_by)
  then show ?thesis
  proof
    assume "i \<in> task_item rt ` set (todayTasks rt 0 (rows_of (d_tasks_data rt db u)))"
    then obtain x where "x \<in> set (todayTasks rt 0 (rows_of (d_tasks_data rt db u)))"
      "i = task_item rt x" by blast
    then show ?thesis using t set_todayTasks [of rt 0] by (auto simp: task_item_def)
  next
    assume "i \<in> exam_item rt ` set (todayExams rt (rows_of (d_exams_data rt db u)))"
    then obtain x where "x \<in> set (todayExams rt (rows_of (d_exams_data rt db u)))"
      "i = exam_item rt x" by blast
    then show ?thesis using e by (auto simp: exam_item_def todayExams_def)
  qed
qed

lemma digits_two:
  "10 \<le> n \<Longrightarrow> n < 100 \<Longrightarrow>
   digits_of n = [''0123456789'' ! (n div 10), ''0123456789'' ! (n mod 10)]"
  by (subst digits_of.simps) (simp add: digits_small)

subsection \<open>The claims about the aggregation\<close>

text \<open>
  Claim C3, as amended. With an authenticated user, an exams read that succeeds and
  distinct ids in the table, the items with id \<open>exam-<id>\<close> are those of the five earliest
  rows of the user with \<open>exam_date >= now\<close>, rows at the same instant being cut as the
  server arranges them. For every arrangement: a row has at most one item; it has exactly
  one when at most five eligible rows are not later than it (so every eligible row has
  one when at most five exist); it has none when five eligible rows are earlier, when
  \<open>exam_date < now\<close>, or when it is another user's; a row with an item is never later
  than an eligible row without; and the exam items are five, or all eligible rows if
  fewer. As stated, for every such row, the claim fails on the sixth of six coming exams.
\<close>

theorem exam_items_for_the_five_earliest:
  assumes "h_user rt = Some u" and "\<not> exams_fail rt"
    and "distinct (map exam_id (exams db))" and "e \<in> set (exams db)"
  shows "length (items_with_id (''exam-'' @ exam_id e)
            (notifications (loadNotifications rt db h))) \<le> 1 \<and>
         (eligible_exam u (clock rt 0) e \<and>
          length (filter (\<lambda>x. eligible_exam u (clock rt 0) x \<and> exam_date x \<le> exam_date e)
                    (exams db)) \<le> 5 \<longrightarrow>
            length (items_with_id (''exam-'' @ exam_id e)
              (notifications (loadNotifications rt db h))) = 1) \<and>
         (5 \<le> length (filter (\<lambda>x. eligible_exam u (clock rt 0) x \<and> exam_date x < exam_date e)
                    (exams db)) \<longrightarrow>
            items_with_id (''exam-'' @ exam_id e)
              (notifications (loadNotifications rt db h)) = []) \<and>
         (eligible_exam u (clock rt 0) e \<and>
          length (filter (eligible_exam u (clock rt 0)) (exams db)) \<le> 5 \<longrightarrow>
            length (items_with_id (''exam-'' @ exam_id e)
              (notifications (loadNotifications rt db h))) = 1) \<and>
         (exam_date e < clock rt 0 \<or> exam_user_id e \<noteq> u \<longrightarrow>
            items_with_id (''exam-'' @ exam_id e)
              (notifications (loadNotifications rt db h)) = []) \<and>
         (\<forall>e' \<in> set (exams db).
            eligible_exam u (clock rt 0) e' \<and>
            items_with_id (''exam-'' @ exam_id e)
              (notifications (loadNotifications rt db h)) \<noteq> [] \<and>
            items_with_id (''exam-'' @ exam_id e')
              (notifications (loadNotifications rt db h)) = [] \<longrightarrow>
            exam_date e \<le> exam_date e') \<and>
         length (filter (\<lambda>n. take 5 (n_id n) = ''exam-'')
            (notifications (loadNotifications rt db h))) =
           min 5 (length (filter (eligible_exam u (clock rt 0)) (exams db)))"
proof -
  let ?now = "clock rt 0"
  let ?ns = "notifications (loadNotifications rt db h)"
  let ?sel = "select_exams (exams_rank rt) u ?now (exams db)"
  have count: "length (items_with_id (''exam-'' @ exam_id x) ?ns) =
      (if x \<in> set ?sel then 1 else 0)" if "x \<in> set (exams db)" for x
    using assms(1,2,3) that by (rule exam_item_count)
  have empty_iff: "items_with_id (''exam-'' @ exam_id x) ?ns = [] \<longleftrightarrow> x \<notin> set ?sel"
    if "x \<in> set (exams db)" for x
    using count [OF that] by (metis length_0_conv zero_neq_one)
  have c1: "length (items_with_id (''exam-'' @ exam_id e) ?ns) \<le> 1"
    using count [OF assms(4)] by simp
  have c2: "length (items_with_id (''exam-'' @ exam_id e) ?ns) = 1"
    if "eligible_exam u ?now e"
      "length (filter (\<lambda>x. eligible_exam u ?now x \<and> exam_date x \<le> exam_date e) (exams db)) \<le> 5"
    using count [OF assms(4)] select_exams_kept [OF assms(4) that, of "exams_rank rt"] by simp
  have c3: "items_with_id (''exam-'' @ exam_id e) ?ns = []"
    if "5 \<le> length (filter (\<lambda>x. eligible_exam u ?now x \<and> exam_date x < exam_date e) (exams db))"
    using empty_iff [OF assms(4)] select_exams_cut [OF that, of "exams_rank rt"] by simp
  have c4: "length (items_with_id (''exam-'' @ exam_id e) ?ns) = 1"
    if "eligible_exam u ?now e" "length (filter (eligible_exam u ?now) (exams db)) \<le> 5"
    using that assms(4) count [OF assms(4)] by (simp add: select_exams_all)
  have c5: "items_with_id (''exam-'' @ exam_id e) ?ns = []"
    if "exam_date e < ?now \<or> exam_user_id e \<noteq> u"
  proof -
    have "\<not> eligible_exam u ?now e" using that by (auto simp: eligible_exam_def)
    then have "e \<notin> set ?sel"
      using select_exams_subset [of "exams_rank rt" u ?now "exams db"] by auto
    then show ?thesis using empty_iff [OF assms(4)] by simp
  qed
  have c6: "exam_date e \<le> exam_date e'"
    if "e' \<in> set (exams db)" "eligible_exam u ?now e'"
      "items_with_id (''exam-'' @ exam_id e) ?ns \<noteq> []"
      "items_with_id (''exam-'' @ exam_id e') ?ns = []" for e'
  proof -
    have "e \<in> set ?sel" using that(3) empty_iff [OF assms(4)] by simp
    moreover have "e' \<notin> set ?sel" using that(4) empty_iff [OF that(1)] by simp
    ultimately show ?thesis using that(1,2) select_exams_earliest by blast
  qed
  have c7: "length (filter (\<lambda>n. take 5 (n_id n) = ''exam-'') ?ns) =
           min 5 (length (filter (eligible_exam u ?now) (exams db)))"
  proof -
    have "?ns = build_notifs rt (exams_data rt db u) (overdue_data rt db u)
        (upcoming_data rt db u)"
      using assms(1) by (rule loadNotifications_list)
    then have "length (filter (\<lambda>n. take 5 (n_id n) = ''exam-'') ?ns) =
        length (rows_of (exams_data rt db u))"
      by (simp only: exam_items_total)
    also have "\<dots> = length ?sel" using assms(2) by (simp add: exams_data_def)
    finally show ?thesis by (simp only: length_select_exams)
  qed
  show ?thesis using c1 c2 c3 c4 c5 c6 c7 by blast
qed

theorem exam_items_for_the_five_earliest_witness:
  "h_user utc_header = Some ''u1'' \<and> \<not> exams_fail utc_header \<and>
   distinct (map exam_id (exams db_six_exams)) \<and>
   exam_in_days 5 5 \<in> set (exams db_six_exams) \<and>
   eligible_exam ''u1'' (clock utc_header 0) (exam_in_days 5 5) \<and>
   length (filter (\<lambda>x. eligible_exam ''u1'' (clock utc_header 0) x \<and>
                        exam_date x \<le> exam_date (exam_in_days 5 5)) (exams db_six_exams)) \<le> 5 \<and>
   length (items_with_id (''exam-'' @ exam_id (exam_in_days 5 5))
     (notifications (loadNotifications utc_header db_six_exams header_initial))) = 1 \<and>
   exam_in_days 6 6 \<in> set (exams db_six_exams) \<and>
   5 \<le> length (filter (\<lambda>x. eligible_exam ''u1'' (clock utc_header 0) x \<and>
                        exam_date x < exam_date (exam_in_days 6 6)) (exams db_six_exams)) \<and>
   items_with_id (''exam-'' @ exam_id (exam_in_days 6 6))
     (notifications (loadNotifications utc_header db_six_exams header_initial)) = [] \<and>
   distinct (map exam_id (exams db_small)) \<and>
   exam_in_days 2 (- 1) \<in> set (exams db_small) \<and>
   exam_date (exam_in_days 2 (- 1)) < clock utc_header 0 \<and>
   items_with_id (''exam-'' @ exam_id (exam_in_days 2 (- 1)))
     (notifications (loadNotifications utc_header db_small header_initial)) = [] \<and>
   distinct (map exam_id (exams db_tied_exams)) \<and>
   exam_in_days 6 5 \<in> set (exams db_tied_exams) \<and>
   exam_date (exam_in_days 5 5) = exam_date (exam_in_days 6 5) \<and>
   length (filter (\<lambda>n. take 5 (n_id n) = ''exam-'')
     (notifications (loadNotifications (utc_header\<lparr>exams_rank := sixth_first\<rparr>)
        db_tied_exams header_initial))) = 5 \<and>
   length (items_with_id (''exam-'' @ exam_id (exam_in_days 6 5))
     (notifications (loadNotifications (utc_header\<lparr>exams_rank := sixth_first\<rparr>)
        db_tied_exams header_initial))) \<le> 1 \<and>
   map n_id (notifications (loadNotifications (utc_header\<lparr>exams_rank := sixth_first\<rparr>)
        db_tied_exams header_initial)) =
     [''exam-'' @ uuid 1, ''exam-'' @ uuid 2, ''exam-'' @ uuid 3, ''exam-'' @ uuid 4,
      ''exam-'' @ uuid 6] \<and>
   map n_id (notifications (loadNotifications utc_header db_tied_exams header_initial)) =
     [''exam-'' @ uuid 1, ''exam-'' @ uuid 2, ''exam-'' @ uuid 3, ''exam-'' @ uuid 4,
      ''exam-'' @ uuid 5]"
proof -
  let ?rt6 = "utc_header\<lparr>exams_rank := sixth_first\<rparr>"
  have h: "h_user utc_header = Some ''u1''" "\<not> exams_fail utc_header"
    by (simp_all add: utc_header_def)
  have h6: "h_user ?rt6 = Some ''u1''" "\<not> exams_fail ?rt6"
    by (simp_all add: utc_header_def)
  have d6: "distinct (map exam_id (exams db_six_exams))"
    by (simp add: db_six_exams_def exam_in_days_def uuid_def digits_small)
  have ds: "distinct (map exam_id (exams db_small))"
    by (simp add: db_small_def exam_in_days_def uuid_def digits_small)
  have dt: "distinct (map exam_id (exams db_tied_exams))"
    by (simp add: db_tied_exams_def exam_in_days_def uuid_def digits_small)
  have m: "exam_in_days 5 5 \<in> set (exams db_six_exams)"
    "exam_in_days 6 6 \<in> set (exams db_six_exams)"
    "exam_in_days 2 (- 1) \<in> set (exams db_small)"
    "exam_in_days 6 5 \<in> set (exams db_tied_exams)"
    by (simp_all add: db_six_exams_def db_small_def db_tied_exams_def)
  have k5: "eligible_exam ''u1'' (clock utc_header 0) (exam_in_days 5 5) \<and>
     length (filter (\<lambda>x. eligible_exam ''u1'' (clock utc_header 0) x \<and>
                        exam_date x \<le> exam_date (exam_in_days 5 5)) (exams db_six_exams)) \<le> 5"
    by (simp add: utc_header_def db_six_exams_def exam_in_days_def eligible_exam_def
        new_year_def)
  have k6: "5 \<le> length (filter (\<lambda>x. eligible_exam ''u1'' (clock utc_header 0) x \<and>
                        exam_date x < exam_date (exam_in_days 6 6)) (exams db_six_exams))"
    by (simp add: utc_header_def db_six_exams_def exam_in_days_def eligible_exam_def
        new_year_def)
  have p: "exam_date (exam_in_days 2 (- 1)) < clock utc_header 0"
    by (simp add: utc_header_def exam_in_days_def new_year_def)
  have tie: "exam_date (exam_in_days 5 5) = exam_date (exam_in_days 6 5)"
    by (simp add: exam_in_days_def)
  have one: "length (items_with_id (''exam-'' @ exam_id (exam_in_days 5 5))
     (notifications (loadNotifications utc_header db_six_exams header_initial))) = 1"
    using k5 exam_items_for_the_five_earliest [OF h d6 m(1), of header_initial] by blast
  have cut: "items_with_id (''exam-'' @ exam_id (exam_in_days 6 6))
     (notifications (loadNotifications utc_header db_six_exams header_initial)) = []"
    using k6 exam_items_for_the_five_earliest [OF h d6 m(2), of header_initial] by blast
  have past: "items_with_id (''exam-'' @ exam_id (exam_in_days 2 (- 1)))
     (notifications (loadNotifications utc_header db_small header_initial)) = []"
    using p exam_items_for_the_five_earliest [OF h ds m(3), of header_initial] by blast
  note t6 = exam_items_for_the_five_earliest [OF h6 dt m(4), of header_initial]
  have n: "length (filter (eligible_exam ''u1'' (clock ?rt6 0)) (exams db_tied_exams)) = 6"
    by (simp add: utc_header_def db_tied_exams_def exam_in_days_def eligible_exam_def
        new_year_def)
  have "length (filter (\<lambda>n. take 5 (n_id n) = ''exam-'')
     (notifications (loadNotifications ?rt6 db_tied_exams header_initial))) =
     min 5 (length (filter (eligible_exam ''u1'' (clock ?rt6 0)) (exams db_tied_exams)))"
    using t6 by blast
  then have total: "length (filter (\<lambda>n. take 5 (n_id n) = ''exam-'')
     (notifications (loadNotifications ?rt6 db_tied_exams header_initial))) = 5"
    unfolding n by simp
  have atmost: "length (items_with_id (''exam-'' @ exam_id (exam_in_days 6 5))
     (notifications (loadNotifications ?rt6 db_tied_exams header_initial))) \<le> 1"
    using t6 by blast
  have ids6: "map n_id (notifications (loadNotifications ?rt6 db_tied_exams header_initial)) =
     [''exam-'' @ uuid 1, ''exam-'' @ uuid 2, ''exam-'' @ uuid 3, ''exam-'' @ uuid 4,
      ''exam-'' @ uuid 6]"
    by (simp add: header_eval db_tied_exams_def sixth_first_def)
  have ids5: "map n_id (notifications (loadNotifications utc_header db_tied_exams header_initial)) =
     [''exam-'' @ uuid 1, ''exam-'' @ uuid 2, ''exam-'' @ uuid 3, ''exam-'' @ uuid 4,
      ''exam-'' @ uuid 5]"
    by (simp add: header_eval db_tied_exams_def)
  show ?thesis
    using h d6 m k5 one k6 cut ds p past dt tie total atmost ids6 ids5 by blast
qed

theorem sixth_exam_has_no_item:
  "exam_in_days 6 6 \<in> set (exams db_six_exams) \<and>
   exam_user_id (exam_in_days 6 6) = ''u1'' \<and>
   clock utc_header 0 \<le> exam_date (exam_in_days 6 6) \<and>
   h_user utc_header = Some ''u1'' \<and>
   items_with_id (''exam-'' @ exam_id (exam_in_days 6 6))
     (notifications (loadNotifications utc_header db_six_exams header_initial)) = []"
  by (simp add: header_eval db_six_exams_def)

text \<open>
  Claim C6, as amended. The ids of the header's notifications are \<open>exam-<id>\<close>,
  \<open>overdue-<id>\<close> and \<open>upcoming-<id>\<close> of the rows read, and they are pairwise distinct
  whenever ids are distinct inside each table, also when a task and an exam share an
  id. The items of the dashboard's schedule carry the id of their row as it is, with
  the source in their type: the pairs of id and type of the schedule are exactly those
  of the task rows and exam rows it shows, each task row as a task, each exam row as
  an exam, and these pairs are pairwise distinct.
  As stated, for every aggregation, the claim fails on the dashboard's schedule for a
  task and an exam with the same id.
\<close>

theorem notification_ids_namespaced:
  assumes "h_user rt = Some u" and "distinct (map exam_id (exams db))"
    and "distinct (map task_id (tasks db))"
  shows "map n_id (notifications (loadNotifications rt db h)) =
           map (\<lambda>e. ''exam-'' @ exam_id e) (rows_of (exams_data rt db u)) @
           map (\<lambda>t. ''overdue-'' @ task_id t) (rows_of (overdue_data rt db u)) @
           map (\<lambda>t. ''upcoming-'' @ task_id t) (rows_of (upcoming_data rt db u)) \<and>
         distinct (map n_id (notifications (loadNotifications rt db h))) \<and>
         (\<forall>dr v sched. d_user dr = Some v \<longrightarrow>
            set (map s_id (loadDashboardData dr db sched)) \<subseteq>
              set (map task_id (tasks db)) \<union> set (map exam_id (exams db))) \<and>
         (\<forall>dr v sched. d_user dr = Some v \<longrightarrow>
            mset (map (\<lambda>i. (s_id i, s_type i)) (loadDashboardData dr db sched)) =
              mset (map (\<lambda>t. (task_id t, TaskItem))
                      (todayTasks dr 0 (rows_of (d_tasks_data dr db v)))) +
              mset (map (\<lambda>e. (exam_id e, ExamItem))
                      (todayExams dr (rows_of (d_exams_data dr db v)))) \<and>
            distinct (map (\<lambda>i. (s_id i, s_type i)) (loadDashboardData dr db sched)) \<and>
            (\<forall>i \<in> set (loadDashboardData dr db sched).
               (s_type i = TaskItem \<and> s_id i \<in> task_id ` set (tasks db)) \<or>
               (s_type i = ExamItem \<and> s_id i \<in> exam_id ` set (exams db))))"
proof -
  have ids: "map n_id (notifications (loadNotifications rt db h)) =
           map (\<lambda>e. ''exam-'' @ exam_id e) (rows_of (exams_data rt db u)) @
           map (\<lambda>t. ''overdue-'' @ task_id t) (rows_of (overdue_data rt db u)) @
           map (\<lambda>t. ''upcoming-'' @ task_id t) (rows_of (upcoming_data rt db u))"
  proof -
    have "notifications (loadNotifications rt db h) =
          build_notifs rt (exams_data rt db u) (overdue_data rt db u) (upcoming_data rt db u)"
      using assms(1) by (simp add: loadNotifications_def Let_def)
    then show ?thesis by (simp only: ids_build_notifs)
  qed
  have d: "distinct (map n_id (notifications (loadNotifications rt db h)))"
    unfolding ids
    by (intro distinct_three_sources distinct_rows_exams distinct_rows_overdue
        distinct_rows_upcoming assms)
  have raw: "\<forall>dr v sched. d_user dr = Some v \<longrightarrow>
            set (map s_id (loadDashboardData dr db sched)) \<subseteq>
              set (map task_id (tasks db)) \<union> set (map exam_id (exams db))"
    using dashboard_ids_raw by blast
  have typed: "mset (map (\<lambda>i. (s_id i, s_type i)) (loadDashboardData dr db sched)) =
              mset (map (\<lambda>t. (task_id t, TaskItem))
                      (todayTasks dr 0 (rows_of (d_tasks_data dr db v)))) +
              mset (map (\<lambda>e. (exam_id e, ExamItem))
                      (todayExams dr (rows_of (d_exams_data dr db v)))) \<and>
            distinct (map (\<lambda>i. (s_id i, s_type i)) (loadDashboardData dr db sched)) \<and>
            (\<forall>i \<in> set (loadDashboardData dr db sched).
               (s_type i = TaskItem \<and> s_id i \<in> task_id ` set (tasks db)) \<or>
               (s_type i = ExamItem \<and> s_id i \<in> exam_id ` set (exams db)))"
    if u: "d_user dr = Some v" for dr v sched
    using dashboard_pairs [OF u, of db sched]
      dashboard_pairs_distinct [OF u assms(3,2), of sched]
      dashboard_item_source [OF u, of _ db sched]
    by blast
  show ?thesis using ids d raw typed by blast
qed

theorem notification_ids_namespaced_witness:
  "h_user utc_header = Some ''u1'' \<and> distinct (map exam_id (exams db_same_id)) \<and>
   distinct (map task_id (tasks db_same_id)) \<and>
   map exam_id (exams db_same_id) = map task_id (tasks db_same_id) \<and>
   distinct (map n_id (notifications (loadNotifications utc_header db_same_id header_initial))) \<and>
   map n_id (notifications (loadNotifications utc_header db_same_id header_initial)) =
     [''exam-00000000-0000-4000-8000-000000000001'',
      ''upcoming-00000000-0000-4000-8000-000000000001''] \<and>
   d_user utc_dash = Some ''u1'' \<and>
   set (map s_id (loadDashboardData utc_dash db_same_id [])) \<subseteq>
     set (map task_id (tasks db_same_id)) \<union> set (map exam_id (exams db_same_id)) \<and>
   distinct (map (\<lambda>i. (s_id i, s_type i)) (loadDashboardData utc_dash db_same_id [])) \<and>
   map (\<lambda>i. (s_id i, s_type i)) (loadDashboardData utc_dash db_same_id []) =
     [(''00000000-0000-4000-8000-000000000001'', TaskItem),
      (''00000000-0000-4000-8000-000000000001'', ExamItem)]"
proof -
  have h: "h_user utc_header = Some ''u1''" "distinct (map exam_id (exams db_same_id))"
    "distinct (map task_id (tasks db_same_id))"
    by (simp_all add: utc_header_def db_same_id_def)
  have same: "map exam_id (exams db_same_id) = map task_id (tasks db_same_id)"
    by (simp add: db_same_id_def task_due_def)
  note t = notification_ids_namespaced [OF h, of header_initial]
  have d: "distinct (map n_id
      (notifications (loadNotifications utc_header db_same_id header_initial)))"
    using t by blast
  have i: "map n_id (notifications (loadNotifications utc_header db_same_id header_initial)) =
     [''exam-00000000-0000-4000-8000-000000000001'',
      ''upcoming-00000000-0000-4000-8000-000000000001'']"
    by (simp add: header_eval db_same_id_def)
  have u: "d_user utc_dash = Some ''u1''" by (simp add: utc_dash_def)
  have r: "set (map s_id (loadDashboardData utc_dash db_same_id [])) \<subseteq>
     set (map task_id (tasks db_same_id)) \<union> set (map exam_id (exams db_same_id))"
    using t u by blast
  have p: "distinct (map (\<lambda>i. (s_id i, s_type i)) (loadDashboardData utc_dash db_same_id []))"
    using t u by blast
  have q: "map (\<lambda>i. (s_id i, s_type i)) (loadDashboardData utc_dash db_same_id []) =
     [(''00000000-0000-4000-8000-000000000001'', TaskItem),
      (''00000000-0000-4000-8000-000000000001'', ExamItem)]"
    by (simp add: dash_eval digits_two db_same_id_def)
  show ?thesis using h same d i u r p q by blast
qed

theorem dashboard_ids_collide:
  "distinct (map exam_id (exams db_same_id)) \<and> distinct (map task_id (tasks db_same_id)) \<and>
   map s_id (loadDashboardData utc_dash db_same_id []) =
     [''00000000-0000-4000-8000-000000000001'', ''00000000-0000-4000-8000-000000000001''] \<and>
   \<not> distinct (map s_id (loadDashboardData utc_dash db_same_id []))"
  by (simp add: dash_eval db_same_id_def)

text \<open>
  Claim C7. The message of every exam item, and of every upcoming task item, of the
  header's notifications embeds the ceiling of (date - now) in days, \<open>now\<close> being the
  clock reading made for that item; at now = 2024-01-01T00:00:00Z, an exam at
  2024-01-04T00:00:00Z gives "in 3 days".
\<close>

theorem day_count_is_the_ceiling:
  assumes "h_user rt = Some u"
  shows "(\<forall>i < length (rows_of (exams_data rt db u)).
            n_message (notifications (loadNotifications rt db h) ! i) =
              exam_title (rows_of (exams_data rt db u) ! i) @ '' in '' @
              show_int \<lceil>real_of_int (exam_date (rows_of (exams_data rt db u) ! i)
                           - clock rt (4 + i)) / 86400000\<rceil> @ '' days'') \<and>
         (\<forall>j < length (rows_of (upcoming_data rt db u)).
            n_message (notifications (loadNotifications rt db h) !
                (length (rows_of (exams_data rt db u)) +
                 length (rows_of (overdue_data rt db u)) + j)) =
              task_title (rows_of (upcoming_data rt db u) ! j) @ '' due in '' @
              show_int \<lceil>real_of_int (new_Date (task_due_date (rows_of (upcoming_data rt db u) ! j))
                           - clock rt (4 + length (rows_of (exams_data rt db u)) + j))
                         / 86400000\<rceil> @ '' days'') \<and>
         n_message (exam_notif rt 1704067200000 (e\<lparr>exam_date := 1704326400000\<rparr>)) =
           exam_title e @ '' in 3 days''"
proof -
  note l = loadNotifications_list [OF assms, of db h]
  have a: "n_message (notifications (loadNotifications rt db h) ! i) =
              exam_title (rows_of (exams_data rt db u) ! i) @ '' in '' @
              show_int \<lceil>real_of_int (exam_date (rows_of (exams_data rt db u) ! i)
                           - clock rt (4 + i)) / 86400000\<rceil> @ '' days''"
    if "i < length (rows_of (exams_data rt db u))" for i
    unfolding l build_notifs_exam_nth [OF that] daysUntil_ceiling [symmetric]
    by (simp add: exam_notif_def)
  have b: "n_message (notifications (loadNotifications rt db h) !
                (length (rows_of (exams_data rt db u)) +
                 length (rows_of (overdue_data rt db u)) + j)) =
              task_title (rows_of (upcoming_data rt db u) ! j) @ '' due in '' @
              show_int \<lceil>real_of_int (new_Date (task_due_date (rows_of (upcoming_data rt db u) ! j))
                           - clock rt (4 + length (rows_of (exams_data rt db u)) + j))
                         / 86400000\<rceil> @ '' days''"
    if "j < length (rows_of (upcoming_data rt db u))" for j
    unfolding l build_notifs_upcoming_nth [OF that] daysUntil_ceiling [symmetric]
    by (simp add: upcoming_notif_def)
  have c: "n_message (exam_notif rt 1704067200000 (e\<lparr>exam_date := 1704326400000\<rparr>)) =
           exam_title e @ '' in 3 days''"
    by (simp add: exam_notif_def daysUntil_def show_int_def digits_small)
  show ?thesis using a b c by blast
qed

theorem day_count_is_the_ceiling_witness:
  "h_user utc_header = Some ''u1'' \<and>
   rows_of (exams_data utc_header db_small ''u1'') = [exam_in_days 1 3] \<and>
   clock utc_header 4 = 1704067200000 \<and>
   exam_date (exam_in_days 1 3) = 1704326400000 \<and>
   \<lceil>real_of_int (1704326400000 - 1704067200000) / 86400000\<rceil> = 3 \<and>
   n_message (notifications (loadNotifications utc_header db_small header_initial) ! 0) =
     ''Final in 3 days'' \<and>
   rows_of (upcoming_data utc_header db_small ''u1'') = [task_due 4 86400000] \<and>
   n_message (notifications (loadNotifications utc_header db_small header_initial) ! 2) =
     ''Essay due in 1 days''"
proof -
  have h: "h_user utc_header = Some ''u1''" by (simp add: utc_header_def)
  have r: "rows_of (exams_data utc_header db_small ''u1'') = [exam_in_days 1 3]"
    by (simp add: header_eval db_small_def)
  have c: "clock utc_header 4 = 1704067200000" by (simp add: utc_header_def new_year_def)
  have d: "exam_date (exam_in_days 1 3) = 1704326400000"
    by (simp add: exam_in_days_def new_year_def)
  have t: "exam_title (exam_in_days 1 3) = ''Final''"
    by (simp add: exam_in_days_def)
  have k: "\<lceil>real_of_int (1704326400000 - 1704067200000) / 86400000\<rceil> = 3"
    by simp
  have "\<forall>i < length (rows_of (exams_data utc_header db_small ''u1'')).
            n_message (notifications (loadNotifications utc_header db_small header_initial) ! i) =
              exam_title (rows_of (exams_data utc_header db_small ''u1'') ! i) @ '' in '' @
              show_int \<lceil>real_of_int (exam_date (rows_of (exams_data utc_header db_small ''u1'') ! i)
                           - clock utc_header (4 + i)) / 86400000\<rceil> @ '' days''"
    using day_count_is_the_ceiling [OF h, of db_small header_initial] by blast
  then have "n_message (notifications (loadNotifications utc_header db_small header_initial) ! 0) =
              exam_title ([exam_in_days 1 3] ! 0) @ '' in '' @
              show_int \<lceil>real_of_int (exam_date ([exam_in_days 1 3] ! 0)
                           - clock utc_header (4 + 0)) / 86400000\<rceil> @ '' days''"
    unfolding r by (simp del: One_nat_def)
  then have m: "n_message (notifications (loadNotifications utc_header db_small header_initial) ! 0)
       = ''Final in 3 days''"
    unfolding nth_Cons_0 d t add_0_right c
    by (simp add: show_int_def digits_small)
  have ro: "rows_of (overdue_data utc_header db_small ''u1'') = [task_due 3 (- 3600000)]"
    by (simp add: header_eval db_small_def)
  have ru: "rows_of (upcoming_data utc_header db_small ''u1'') = [task_due 4 86400000]"
    by (simp add: header_eval db_small_def)
  have c5: "clock utc_header 5 = 1704067200000" by (simp add: utc_header_def new_year_def)
  have du: "new_Date (task_due_date (task_due 4 86400000)) = 1704153600000"
    "task_title (task_due 4 86400000) = ''Essay''"
    by (simp_all add: task_due_def new_Date_def new_year_def)
  have "\<forall>j < length (rows_of (upcoming_data utc_header db_small ''u1'')).
            n_message (notifications (loadNotifications utc_header db_small header_initial) !
                (length (rows_of (exams_data utc_header db_small ''u1'')) +
                 length (rows_of (overdue_data utc_header db_small ''u1'')) + j)) =
              task_title (rows_of (upcoming_data utc_header db_small ''u1'') ! j) @ '' due in '' @
              show_int \<lceil>real_of_int
                  (new_Date (task_due_date (rows_of (upcoming_data utc_header db_small ''u1'') ! j))
                     - clock utc_header
                         (4 + length (rows_of (exams_data utc_header db_small ''u1'')) + j))
                         / 86400000\<rceil> @ '' days''"
    using day_count_is_the_ceiling [OF h, of db_small header_initial] by blast
  then have "n_message (notifications (loadNotifications utc_header db_small header_initial) !
                (length [exam_in_days 1 3] + length [task_due 3 (- 3600000)] + 0)) =
              task_title ([task_due 4 86400000] ! 0) @ '' due in '' @
              show_int \<lceil>real_of_int
                  (new_Date (task_due_date ([task_due 4 86400000] ! 0))
                     - clock utc_header (4 + length [exam_in_days 1 3] + 0))
                         / 86400000\<rceil> @ '' days''"
    unfolding r ro ru by (simp del: One_nat_def)
  then have mu: "n_message
      (notifications (loadNotifications utc_header db_small header_initial) ! 2) =
        ''Essay due in 1 days''"
    unfolding nth_Cons_0 du
    by (simp add: c5 show_int_def digits_small numeral_2_eq_2)
  show ?thesis using h r c d k m ru mu by blast
qed

text \<open>
  Claim C8. Whichever of the three reads fail, \<open>loadNotifications\<close> still sets the list and
  the count, and the list is the one built from the reads that succeeded, a failed
  read standing for no rows: it is the list of a pass without failure over a table
  that is empty.
\<close>

theorem failed_reads_contribute_nothing:
  assumes "h_user rt = Some u"
  shows "notifications (loadNotifications rt db h) =
           exam_notifs rt 4
             (if exams_fail rt then [] else select_exams (exams_rank rt) u (clock rt 0) (exams db)) @
           map (overdue_notif rt)
             (if overdue_fail rt then [] else select_overdue (overdue_rank rt) u (clock rt 1) (tasks db)) @
           upcoming_notifs rt
             (4 + length (if exams_fail rt then []
                          else select_exams (exams_rank rt) u (clock rt 0) (exams db)))
             (if upcoming_fail rt then []
              else select_upcoming (upcoming_rank rt) u (clock rt 3) (plus_seven_days rt (clock rt 2)) (tasks db)) \<and>
         unreadCount (loadNotifications rt db h) =
           int (length (notifications (loadNotifications rt db h))) \<and>
         build_notifs rt ex od up =
           build_notifs rt (Some (rows_of ex)) (Some (rows_of od)) (Some (rows_of up)) \<and>
         loadNotifications (rt\<lparr>exams_fail := True\<rparr>) db h =
           loadNotifications (rt\<lparr>exams_fail := False\<rparr>) (db\<lparr>exams := []\<rparr>) h \<and>
         loadNotifications (rt\<lparr>overdue_fail := True, upcoming_fail := True\<rparr>) db h =
           loadNotifications (rt\<lparr>overdue_fail := False, upcoming_fail := False\<rparr>)
             (db\<lparr>tasks := []\<rparr>) h"
proof -
  have a: "notifications (loadNotifications rt db h) =
           exam_notifs rt 4
             (if exams_fail rt then [] else select_exams (exams_rank rt) u (clock rt 0) (exams db)) @
           map (overdue_notif rt)
             (if overdue_fail rt then [] else select_overdue (overdue_rank rt) u (clock rt 1) (tasks db)) @
           upcoming_notifs rt
             (4 + length (if exams_fail rt then []
                          else select_exams (exams_rank rt) u (clock rt 0) (exams db)))
             (if upcoming_fail rt then []
              else select_upcoming (upcoming_rank rt) u (clock rt 3) (plus_seven_days rt (clock rt 2)) (tasks db))"
    unfolding loadNotifications_list [OF assms] build_notifs_rows
    by (simp add: exams_data_def overdue_data_def upcoming_data_def)
  have b: "unreadCount (loadNotifications rt db h) =
           int (length (notifications (loadNotifications rt db h)))"
    using assms by (simp add: loadNotifications_def Let_def)
  have e: "exam_notifs r k es = exam_notifs r' k es"
    if "clock r = clock r'" "toLocaleDateString r = toLocaleDateString r'" for r r' k es
    using that by (induction es arbitrary: k) (simp_all add: exam_notif_def)
  have p: "upcoming_notifs r k ts = upcoming_notifs r' k ts"
    if "clock r = clock r'" "toLocaleDateString r = toLocaleDateString r'" for r r' k ts
    using that by (induction ts arbitrary: k) (simp_all add: upcoming_notif_def)
  have c: "loadNotifications (rt\<lparr>exams_fail := True\<rparr>) db h =
           loadNotifications (rt\<lparr>exams_fail := False\<rparr>) (db\<lparr>exams := []\<rparr>) h"
    using assms
    e [of "rt\<lparr>exams_fail := True\<rparr>" "rt\<lparr>exams_fail := False\<rparr>"]
    p [of "rt\<lparr>exams_fail := True\<rparr>" "rt\<lparr>exams_fail := False\<rparr>"]
    by (simp add: loadNotifications_def Let_def build_notifs_rows exams_data_def
        overdue_data_def upcoming_data_def select_exams_def server_order_def overdue_notif_def)
  have d: "loadNotifications (rt\<lparr>overdue_fail := True, upcoming_fail := True\<rparr>) db h =
           loadNotifications (rt\<lparr>overdue_fail := False, upcoming_fail := False\<rparr>)
             (db\<lparr>tasks := []\<rparr>) h"
    using assms
    e [of "rt\<lparr>overdue_fail := True, upcoming_fail := True\<rparr>"
          "rt\<lparr>overdue_fail := False, upcoming_fail := False\<rparr>"]
    by (simp add: loadNotifications_def Let_def build_notifs_rows exams_data_def
        overdue_data_def upcoming_data_def select_overdue_def select_upcoming_def
        server_order_def)
  show ?thesis using a b c d build_notifs_failed by blast
qed

theorem failed_reads_contribute_nothing_witness:
  "h_user (utc_header\<lparr>exams_fail := True, upcoming_fail := True\<rparr>) = Some ''u1'' \<and>
   map n_id (notifications
     (loadNotifications (utc_header\<lparr>exams_fail := True, upcoming_fail := True\<rparr>)
        db_small header_initial)) = [''overdue-00000000-0000-4000-8000-000000000003''] \<and>
   unreadCount
     (loadNotifications (utc_header\<lparr>exams_fail := True, upcoming_fail := True\<rparr>)
        db_small header_initial) = 1"
proof -
  let ?rt = "utc_header\<lparr>exams_fail := True, upcoming_fail := True\<rparr>"
  have h: "h_user ?rt = Some ''u1''" by (simp add: utc_header_def)
  have f: "\<not> overdue_fail ?rt" by (simp add: utc_header_def)
  have n: "notifications (loadNotifications ?rt db_small header_initial) =
      map (overdue_notif ?rt) (select_overdue (overdue_rank ?rt) ''u1'' (clock ?rt 1) (tasks db_small))"
    using failed_reads_contribute_nothing [OF h, where db = db_small and h = header_initial
        and ex = None and od = None and up = None, THEN conjunct1] f
    by simp
  have s: "select_overdue (overdue_rank ?rt) ''u1'' (clock ?rt 1) (tasks db_small) = [task_due 3 (- 3600000)]"
    by (simp add: header_eval db_small_def)
  have i: "map n_id (notifications (loadNotifications ?rt db_small header_initial)) =
      [''overdue-00000000-0000-4000-8000-000000000003'']"
    unfolding n s by (simp add: overdue_notif_def task_due_def uuid_def digits_small)
  have "unreadCount (loadNotifications ?rt db_small header_initial) =
      int (length (notifications (loadNotifications ?rt db_small header_initial)))"
    using failed_reads_contribute_nothing [OF h, where db = db_small and h = header_initial
        and ex = None and od = None and up = None]
    by blast
  then have c: "unreadCount (loadNotifications ?rt db_small header_initial) = 1"
    unfolding n s by simp
  show ?thesis using h i c by blast
qed

text \<open>
  Claim C10. The unread count is never negative, whatever loads and dismissals happen;
  a load sets it to the length of the list it produced; a dismissal lowers it by one,
  not below zero, and removes the items with the given id, which is exactly one item
  when the ids of the list are distinct and the id is in the list.
\<close>

theorem unread_count_never_negative:
  "0 \<le> unreadCount (foldl header_step header_initial ops) \<and>
   (h_user rt = Some u \<longrightarrow>
      unreadCount (loadNotifications rt db h) =
        int (length (notifications (loadNotifications rt db h)))) \<and>
   unreadCount (removeNotification ident h) = max 0 (unreadCount h - 1) \<and>
   notifications (removeNotification ident h) =
     filter (\<lambda>notif. n_id notif \<noteq> ident) (notifications h) \<and>
   (n \<in> set (notifications h) \<and> distinct (map n_id (notifications h)) \<longrightarrow>
      notifications (removeNotification (n_id n) h) = remove1 n (notifications h) \<and>
      length (notifications (removeNotification (n_id n) h)) + 1 = length (notifications h))"
proof -
  have a: "0 \<le> unreadCount (foldl header_step header_initial ops)"
    by (rule header_run_nonneg) (simp add: header_initial_def)
  have b: "unreadCount (loadNotifications rt db h) =
        int (length (notifications (loadNotifications rt db h)))" if "h_user rt = Some u"
    using that by (simp add: loadNotifications_def Let_def)
  have c: "notifications (removeNotification (n_id n) h) = remove1 n (notifications h) \<and>
      length (notifications (removeNotification (n_id n) h)) + 1 = length (notifications h)"
    if "n \<in> set (notifications h)" "distinct (map n_id (notifications h))"
  proof -
    have r: "notifications (removeNotification (n_id n) h) = remove1 n (notifications h)"
      using filter_other_ids [OF that(2,1)] by (simp add: removeNotification_def)
    have "length (remove1 n (notifications h)) + 1 = length (notifications h)"
      using that(1) by (simp add: length_remove1) (cases "notifications h"; simp)
    then show ?thesis using r by simp
  qed
  have d: "unreadCount (removeNotification ident h) = max 0 (unreadCount h - 1)"
    "notifications (removeNotification ident h) =
       filter (\<lambda>notif. n_id notif \<noteq> ident) (notifications h)"
    by (simp_all add: removeNotification_def)
  show ?thesis using a b c d by blast
qed

theorem unread_count_never_negative_witness:
  "h_user utc_header = Some ''u1'' \<and>
   unreadCount (loadNotifications utc_header db_small header_initial) = 3 \<and>
   0 \<le> unreadCount (foldl header_step header_initial
          [Remove ''x'', Load utc_header db_small, Remove ''y'']) \<and>
   overdue_notif utc_header (task_due 3 (- 3600000)) \<in>
     set (notifications (loadNotifications utc_header db_small header_initial)) \<and>
   distinct (map n_id (notifications (loadNotifications utc_header db_small header_initial))) \<and>
   map n_id (notifications
     (removeNotification (n_id (overdue_notif utc_header (task_due 3 (- 3600000))))
       (loadNotifications utc_header db_small header_initial))) =
     [''exam-00000000-0000-4000-8000-000000000001'',
      ''upcoming-00000000-0000-4000-8000-000000000004''] \<and>
   unreadCount
     (removeNotification (n_id (overdue_notif utc_header (task_due 3 (- 3600000))))
       (loadNotifications utc_header db_small header_initial)) = 2"
proof -
  let ?h = "loadNotifications utc_header db_small header_initial"
  let ?n = "overdue_notif utc_header (task_due 3 (- 3600000))"
  note t = unread_count_never_negative [where ops = "[Remove ''x'', Load utc_header db_small,
      Remove ''y'']" and rt = utc_header and u = "''u1''" and db = db_small
      and h = ?h and ident = "n_id ?n" and n = ?n]
  have u: "h_user utc_header = Some ''u1''" by (simp add: utc_header_def)
  have l: "notifications ?h =
     [exam_notif utc_header new_year (exam_in_days 1 3), ?n,
      upcoming_notif utc_header new_year (task_due 4 86400000)]"
    by (simp add: loadNotifications_def build_notifs_def exams_data_def overdue_data_def
        upcoming_data_def select_exams_def select_overdue_def select_upcoming_def
        server_order_def eligible_exam_def rows_of_def new_Date_def utc_header_def db_small_def
        exam_in_days_def task_due_def new_year_def Let_def)
  have "unreadCount ?h = int (length (notifications ?h))"
    using u unread_count_never_negative [where rt = utc_header and u = "''u1''"
        and db = db_small and h = header_initial]
    by blast
  then have c: "unreadCount ?h = 3" unfolding l by simp
  have m: "?n \<in> set (notifications ?h)" unfolding l by simp
  have d: "distinct (map n_id (notifications ?h))"
    unfolding l
    by (simp add: exam_notif_def overdue_notif_def upcoming_notif_def)
  have r: "notifications (removeNotification (n_id ?n) ?h) = remove1 ?n (notifications ?h)"
    using t m d by blast
  have i: "map n_id (notifications (removeNotification (n_id ?n) ?h)) =
     [''exam-00000000-0000-4000-8000-000000000001'',
      ''upcoming-00000000-0000-4000-8000-000000000004'']"
    unfolding r l
    by (simp add: exam_notif_def overdue_notif_def upcoming_notif_def exam_in_days_def
        task_due_def uuid_def digits_small)
  have "unreadCount (removeNotification (n_id ?n) ?h) = max 0 (unreadCount ?h - 1)"
    using t by blast
  then have k: "unreadCount (removeNotification (n_id ?n) ?h) = 2" unfolding c by simp
  have z: "0 \<le> unreadCount (foldl header_step header_initial
          [Remove ''x'', Load utc_header db_small, Remove ''y''])"
    using t by blast
  show ?thesis using u c z m d i k by blast
qed

end
